theory Spec2Isabelle
  imports Main
begin

section \<open>Values, user code and the state of the page\<close>

text \<open>
  The module \<^verbatim>\<open>src/index.ts\<close> keeps one module-level variable, \<^verbatim>\<open>currentInstance\<close>,
  and defines custom elements whose instances carry a reactive \<^verbatim>\<open>_props\<close> object and five
  optional arrays of callbacks (\<^verbatim>\<open>_bm\<close>, \<^verbatim>\<open>_m\<close>, \<^verbatim>\<open>_bu\<close>, \<^verbatim>\<open>_u\<close>, \<^verbatim>\<open>_um\<close>). Objects are
  referred to by their identity, a natural number; the state of the page is passed
  explicitly through every operation.

  An attribute value delivered by the platform is a string, or \<^verbatim>\<open>null\<close> when the attribute
  is removed.
\<close>

datatype jsval = JNull | JStr string

text \<open>
  What a read of a key of \<^verbatim>\<open>props\<close> yields: \<^verbatim>\<open>undefined\<close>, a value written before, or what
  \<^verbatim>\<open>Object.prototype\<close> holds under that name (a function, or for \<^verbatim>\<open>__proto__\<close> the prototype
  itself), which is never a string nor \<^verbatim>\<open>null\<close>.
\<close>

datatype readval = Undefined | Own jsval | Inherited string

text \<open>The five names handed to \<^verbatim>\<open>createLifecycleMethod\<close>: '_bm', '_m', '_bu', '_u', '_um'.\<close>

datatype hook = Hbm | Hm | Hbu | Hu | Hum

text \<open>
  The factory, the render function it returns and the lifecycle callbacks are supplied by
  the user of the module. What such code can do that the module reacts to is: call one of
  the exported registration functions with a callback (\<open>Reg Hm body\<close> is the call
  \<^verbatim>\<open>onMounted(body)\<close>, and so on for the other four), read a key of the \<^verbatim>\<open>props\<close> object it
  closes over (possibly branching on the value read), and throw. User code that writes to
  \<^verbatim>\<open>props\<close> is outside this model: the only writer is \<^verbatim>\<open>attributeChangedCallback\<close>.
\<close>

datatype stmt =
    Reg hook "stmt list"
  | Get string
  | IfEq string readval "stmt list" "stmt list"
  | Throw

text \<open>A closure is a body together with the identity of the \<^verbatim>\<open>props\<close> object it closes over.\<close>

type_synonym closure = "nat \<times> stmt list"

text \<open>A factory runs its set-up code and returns a render function.\<close>

record factory =
  setup_code :: "stmt list"
  render_fn :: "stmt list"

text \<open>
  Observations: a callback of a lifecycle point of an instance is invoked; the external
  \<^verbatim>\<open>render\<close> operation of lit-html is called for an instance.
\<close>

datatype event = Fired nat hook closure | Rendered nat

text \<open>An operation returns normally or throws; the state reached is kept in both cases.\<close>

datatype status = Normal | Thrown

text \<open>
  An instance of the element class: its fields, and the two variables of the constructor
  that the closure passed to \<^verbatim>\<open>effect\<close> captures (\<^verbatim>\<open>template\<close>, \<^verbatim>\<open>isMounted\<close>). \<^verbatim>\<open>_props\<close> wraps
  the plain object \<^verbatim>\<open>{}\<close>: \<open>props\<close> holds its own properties and \<open>inherits\<close> tells whether its
  prototype is still \<^verbatim>\<open>Object.prototype\<close>.
\<close>

record inst =
  props :: "string \<rightharpoonup> jsval"
  inherits :: bool
  hooks :: "hook \<rightharpoonup> closure list"
  template :: "stmt list"
  isMounted :: bool

text \<open>
  The state: the module's \<^verbatim>\<open>currentInstance\<close>, the objects, and the state of the
  reactivity library (the running computation and, for every object and key, the
  computations that depend on it, in insertion order). \<open>trace\<close> and \<open>readlog\<close> only record
  what happened: the observations above, and every read of a reactive key with the
  computation that was running.
\<close>

record world =
  currentInstance :: "nat option"
  heap :: "nat \<Rightarrow> inst"
  activeEffect :: "nat option"
  subs :: "nat \<Rightarrow> string \<Rightarrow> nat list"
  trace :: "event list"
  readlog :: "(nat option \<times> nat \<times> string) list"

definition blank :: inst where
  "blank = \<lparr>props = Map.empty, inherits = True, hooks = Map.empty, template = [],
            isMounted = False\<rparr>"

definition init :: world where
  "init = \<lparr>currentInstance = None, heap = (\<lambda>_. blank), activeEffect = None,
           subs = (\<lambda>_ _. []), trace = [], readlog = []\<rparr>"

section \<open>The plain object behind the properties\<close>

text \<open>The names of the properties of \<^verbatim>\<open>Object.prototype\<close>.\<close>

definition object_prototype_keys :: "string list" where
  "object_prototype_keys =
     [''constructor'', ''__defineGetter__'', ''__defineSetter__'', ''hasOwnProperty'',
      ''__lookupGetter__'', ''__lookupSetter__'', ''isPrototypeOf'', ''propertyIsEnumerable'',
      ''toString'', ''valueOf'', ''__proto__'', ''toLocaleString'']"

text \<open>
  \<^verbatim>\<open>obj[key]\<close>: an own property wins; otherwise the property is looked up in the
  prototype, if the object still has one.
\<close>

definition obj_get :: "inst \<Rightarrow> string \<Rightarrow> readval" where
  "obj_get ob key =
     (case props ob key of
        Some v \<Rightarrow> Own v
      | None \<Rightarrow>
          if inherits ob \<and> key \<in> set object_prototype_keys then Inherited key else Undefined)"

text \<open>
  \<^verbatim>\<open>obj[key] = v\<close> for a string or \<^verbatim>\<open>null\<close>. Every property of \<^verbatim>\<open>Object.prototype\<close> is a
  writable data property, which the assignment shadows by an own property, except
  \<^verbatim>\<open>__proto__\<close>: that one is an accessor, whose setter ignores a string and, given
  \<^verbatim>\<open>null\<close>, removes the prototype of the object. No own property is created in either case.
\<close>

definition obj_set :: "string \<Rightarrow> jsval \<Rightarrow> inst \<Rightarrow> inst" where
  "obj_set key v ob =
     (if key = ''__proto__'' \<and> inherits ob \<and> props ob key = None
      then (case v of JNull \<Rightarrow> ob\<lparr>inherits := False\<rparr> | JStr s \<Rightarrow> ob)
      else ob\<lparr>props := (props ob)(key \<mapsto> v)\<rparr>)"

text \<open>The assignment, on the object of instance \<open>obj\<close>.\<close>

definition assign :: "nat \<Rightarrow> string \<Rightarrow> jsval \<Rightarrow> world \<Rightarrow> world" where
  "assign obj key v w = w\<lparr>heap := (heap w)(obj := obj_set key v (heap w obj))\<rparr>"

section \<open>The reactivity library\<close>

text \<open>
  \<^verbatim>\<open>shallowReactive\<close> and \<^verbatim>\<open>effect\<close> are imported from the package @vue/reactivity, whose
  code is not part of the source. What the module relies on is described in sections 4.1
  to 4.3 of the specification, and the definitions of this section and the definitions
  \<open>run\<close>, \<open>run_all\<close>, \<open>trigger\<close> and \<open>reactive_set\<close> further down follow that
  description.
\<close>

text \<open>
  Modelled from the spec: \<^verbatim>\<open>track(object, key)\<close> of the dependency tracker, missing from the
  source (section 4.2). If a computation is running it is added to the dependents of
  (object, key), unless it is already among them.
\<close>

definition track :: "nat \<Rightarrow> string \<Rightarrow> world \<Rightarrow> world" where
  "track obj key w =
     (case activeEffect w of
        None \<Rightarrow> w
      | Some c \<Rightarrow>
          if c \<in> set (subs w obj key) then w
          else w\<lparr>subs := (subs w)(obj := (subs w obj)(key := subs w obj key @ [c]))\<rparr>)"

text \<open>
  Modelled from the spec: a read of a key of a reactive object, missing from the source
  (section 4.1). It yields what the plain object yields and takes part in tracking, also
  for a key that does not exist yet. The read is recorded in \<open>readlog\<close>.
\<close>

definition reactive_get :: "nat \<Rightarrow> string \<Rightarrow> world \<Rightarrow> readval \<times> world" where
  "reactive_get obj key w =
     (obj_get (heap w obj) key,
      track obj key (w\<lparr>readlog := readlog w @ [(activeEffect w, obj, key)]\<rparr>))"

text \<open>
  Modelled from the spec: the clearing of a computation's previous dependencies at the
  start of a run, missing from the source (sections 2 and 4.3): the computation is removed
  from the dependents of every key.
\<close>

definition cleanup :: "nat \<Rightarrow> world \<Rightarrow> world" where
  "cleanup c w = w\<lparr>subs := (\<lambda>obj key. removeAll c (subs w obj key))\<rparr>"

section \<open>Lifecycle registration\<close>

text \<open>
  \<^verbatim>\<open>createLifecycleMethod(name)\<close> returns the registration function for one array. It
  tests \<^verbatim>\<open>currentInstance\<close>, creates the array on first use and pushes the callback.
\<close>

definition createLifecycleMethod :: "hook \<Rightarrow> closure \<Rightarrow> world \<Rightarrow> status \<times> world" where
  "createLifecycleMethod name cb w =
     (case currentInstance w of
        None \<Rightarrow> (Normal, w)
      | Some c \<Rightarrow>
          (Normal,
           w\<lparr>heap := (heap w)(c := (heap w c)\<lparr>hooks := (hooks (heap w c))
               (name \<mapsto> (case hooks (heap w c) name of None \<Rightarrow> [] | Some cbs \<Rightarrow> cbs) @ [cb])\<rparr>)\<rparr>))"

definition onBeforeMount :: "closure \<Rightarrow> world \<Rightarrow> status \<times> world" where
  "onBeforeMount = createLifecycleMethod Hbm"

definition onMounted :: "closure \<Rightarrow> world \<Rightarrow> status \<times> world" where
  "onMounted = createLifecycleMethod Hm"

definition onBeforeUpdate :: "closure \<Rightarrow> world \<Rightarrow> status \<times> world" where
  "onBeforeUpdate = createLifecycleMethod Hbu"

definition onUpdated :: "closure \<Rightarrow> world \<Rightarrow> status \<times> world" where
  "onUpdated = createLifecycleMethod Hu"

definition onUnmounted :: "closure \<Rightarrow> world \<Rightarrow> status \<times> world" where
  "onUnmounted = createLifecycleMethod Hum"

text \<open>
  The five exports (lines 120 to 124), by the array each is bound to: a call of a
  registration function in user code goes through here.
\<close>

definition lifecycle :: "hook \<Rightarrow> closure \<Rightarrow> world \<Rightarrow> status \<times> world" where
  "lifecycle name =
     (case name of
        Hbm \<Rightarrow> onBeforeMount
      | Hm \<Rightarrow> onMounted
      | Hbu \<Rightarrow> onBeforeUpdate
      | Hu \<Rightarrow> onUpdated
      | Hum \<Rightarrow> onUnmounted)"

section \<open>Running user code\<close>

text \<open>
  \<open>exec self s\<close> runs one statement of user code whose \<^verbatim>\<open>props\<close> is the object \<open>self\<close>;
  \<open>execs\<close> runs a body, stopping at the first throw.
\<close>

fun exec :: "nat \<Rightarrow> stmt \<Rightarrow> world \<Rightarrow> status \<times> world"
  and execs :: "nat \<Rightarrow> stmt list \<Rightarrow> world \<Rightarrow> status \<times> world" where
  "exec self (Reg name body) w = lifecycle name (self, body) w"
| "exec self (Get key) w = (Normal, snd (reactive_get self key w))"
| "exec self (IfEq key v a b) w =
     (case reactive_get self key w of
        (x, w1) \<Rightarrow> if x = v then execs self a w1 else execs self b w1)"
| "exec self Throw w = (Thrown, w)"
| "execs self [] w = (Normal, w)"
| "execs self (s # ss) w =
     (case exec self s w of
        (Normal, w1) \<Rightarrow> execs self ss w1
      | (Thrown, w1) \<Rightarrow> (Thrown, w1))"

text \<open>
  \<^verbatim>\<open>this._bm && this._bm.forEach((cb) => cb())\<close>: nothing when the array is absent;
  otherwise the callbacks are invoked in array order. \<^verbatim>\<open>forEach\<close> fixes the range before
  the first call, so a callback pushed meanwhile is not visited, and a throwing callback
  ends the iteration.
\<close>

fun forEach :: "nat \<Rightarrow> hook \<Rightarrow> closure list \<Rightarrow> world \<Rightarrow> status \<times> world" where
  "forEach i name [] w = (Normal, w)"
| "forEach i name (cb # cbs) w =
     (case execs (fst cb) (snd cb) (w\<lparr>trace := trace w @ [Fired i name cb]\<rparr>) of
        (Normal, w1) \<Rightarrow> forEach i name cbs w1
      | (Thrown, w1) \<Rightarrow> (Thrown, w1))"

definition fire :: "nat \<Rightarrow> hook \<Rightarrow> world \<Rightarrow> status \<times> world" where
  "fire i name w =
     (case hooks (heap w i) name of
        None \<Rightarrow> (Normal, w)
      | Some cbs \<Rightarrow> forEach i name cbs w)"

section \<open>The element class\<close>

text \<open>
  The function passed to \<^verbatim>\<open>effect\<close> in the constructor (lines 70 to 85): before the first
  render the \<^verbatim>\<open>_bu\<close> callbacks, then \<^verbatim>\<open>render(template(), root)\<close>, then the \<^verbatim>\<open>_u\<close> callbacks
  if already mounted, else \<^verbatim>\<open>isMounted = true\<close>.
\<close>

definition effect_body :: "nat \<Rightarrow> world \<Rightarrow> status \<times> world" where
  "effect_body i w =
     (case (if \<not> isMounted (heap w i) then fire i Hbu w else (Normal, w)) of
        (Thrown, w1) \<Rightarrow> (Thrown, w1)
      | (Normal, w1) \<Rightarrow>
          (case execs i (template (heap w1 i)) w1 of
             (Thrown, w2) \<Rightarrow> (Thrown, w2)
           | (Normal, w2) \<Rightarrow>
               (let w3 = w2\<lparr>trace := trace w2 @ [Rendered i]\<rparr>
                in if isMounted (heap w3 i) then fire i Hu w3
                   else (Normal, w3\<lparr>heap := (heap w3)(i := (heap w3 i)\<lparr>isMounted := True\<rparr>)\<rparr>))))"

text \<open>
  Modelled from the spec: one run of a computation, missing from the source (section 4.3).
  The computation of instance \<open>c\<close> is the one its constructor creates; a run drops its
  previous dependencies, marks it as the running one, executes the body and restores the
  mark. The specification does not say whether the mark is restored when the body throws;
  here it is, and no property below depends on that. \<^verbatim>\<open>effect\<close> itself is one such run, made
  at once when the computation is created.
\<close>

definition run :: "nat \<Rightarrow> world \<Rightarrow> status \<times> world" where
  "run c w =
     (let prev = activeEffect w;
          w1 = (cleanup c w)\<lparr>activeEffect := Some c\<rparr>
      in case effect_body c w1 of
           (st, w2) \<Rightarrow> (st, w2\<lparr>activeEffect := prev\<rparr>))"

text \<open>
  Modelled from the spec: the reruns made by \<^verbatim>\<open>trigger\<close>, missing from the source (section
  4.2). The computations of a snapshot of the dependents are rerun synchronously, in order;
  a rerun that throws ends it.
\<close>

fun run_all :: "nat list \<Rightarrow> world \<Rightarrow> status \<times> world" where
  "run_all [] w = (Normal, w)"
| "run_all (c # cs) w =
     (case run c w of
        (Normal, w1) \<Rightarrow> run_all cs w1
      | (Thrown, w1) \<Rightarrow> (Thrown, w1))"

text \<open>
  Modelled from the spec: \<^verbatim>\<open>trigger(object, key)\<close> of the dependency tracker, missing from
  the source (section 4.2). The snapshot is the list of dependents of (object, key) when
  the write happens.
\<close>

definition trigger :: "nat \<Rightarrow> string \<Rightarrow> world \<Rightarrow> status \<times> world" where
  "trigger obj key w = run_all (subs w obj key) w"

text \<open>
  Modelled from the spec: a write to a key of a reactive object, missing from the source
  (section 4.1). The object behaves as the plain object it wraps: the assignment is made on
  it, then the dependents of the key are rerun.
\<close>

definition reactive_set :: "nat \<Rightarrow> string \<Rightarrow> jsval \<Rightarrow> world \<Rightarrow> status \<times> world" where
  "reactive_set obj key v w = trigger obj key (assign obj key v w)"

text \<open>
  \<^verbatim>\<open>factory.call(this, props)\<close> (line 55). In the three-argument form the factory parameter
  is optional; calling an absent factory throws a TypeError.
\<close>

definition call_factory :: "factory option \<Rightarrow> nat \<Rightarrow> world \<Rightarrow> status \<times> world" where
  "call_factory fac i w =
     (case fac of
        None \<Rightarrow> (Thrown, w)
      | Some f \<Rightarrow>
          (case execs i (setup_code f) w of
             (Thrown, w1) \<Rightarrow> (Thrown, w1)
           | (Normal, w1) \<Rightarrow>
               (Normal, w1\<lparr>heap := (heap w1)(i := (heap w1 i)\<lparr>template := render_fn f\<rparr>)\<rparr>)))"

text \<open>
  The constructor (lines 42 to 86), for the new object \<open>i\<close>: a fresh reactive \<^verbatim>\<open>_props\<close>,
  \<^verbatim>\<open>currentInstance = this\<close>, the factory call, \<^verbatim>\<open>currentInstance = null\<close>, the \<^verbatim>\<open>_bm\<close>
  callbacks, and \<^verbatim>\<open>effect\<close>, which runs the computation once at once.
\<close>

definition constructor :: "factory option \<Rightarrow> nat \<Rightarrow> world \<Rightarrow> status \<times> world" where
  "constructor fac i w =
     (let w0 = w\<lparr>heap := (heap w)(i := blank)\<rparr>;
          w1 = w0\<lparr>currentInstance := Some i\<rparr>
      in case call_factory fac i w1 of
           (Thrown, w2) \<Rightarrow> (Thrown, w2)
         | (Normal, w2) \<Rightarrow>
             (let w3 = w2\<lparr>currentInstance := None\<rparr>
              in case fire i Hbm w3 of
                   (Thrown, w4) \<Rightarrow> (Thrown, w4)
                 | (Normal, w4) \<Rightarrow> run i w4))"

definition connectedCallback :: "nat \<Rightarrow> world \<Rightarrow> status \<times> world" where
  "connectedCallback i w = fire i Hm w"

definition disconnectedCallback :: "nat \<Rightarrow> world \<Rightarrow> status \<times> world" where
  "disconnectedCallback i w = fire i Hum w"

definition attributeChangedCallback ::
    "nat \<Rightarrow> string \<Rightarrow> jsval \<Rightarrow> jsval \<Rightarrow> world \<Rightarrow> status \<times> world" where
  "attributeChangedCallback i name oldValue newValue w = reactive_set i name newValue w"

section \<open>Registering a component\<close>

text \<open>
  \<^verbatim>\<open>defineComponent(name, propDefs, factory)\<close>: the second parameter is the list of
  attribute names or, in the two-argument form, the factory itself
  (\<^verbatim>\<open>typeof propDefs === 'function'\<close>). The class handed to the registry answers
  \<^verbatim>\<open>observedAttributes\<close> with the list and its constructor calls the factory.
\<close>

datatype arg = ArgList "string list" | ArgFactory factory

record element_class =
  observedAttributes :: "string list"
  class_factory :: "factory option"

datatype define_error = DuplicateDefinition

text \<open>
  Modelled from the spec: \<^verbatim>\<open>customElements.define\<close> belongs to the platform. Section 6 says
  that it registers the element type under the identifier and that an identifier already in
  use fails with the platform's duplicate-definition condition.
\<close>

definition customElements_define ::
    "string \<Rightarrow> element_class \<Rightarrow> (string \<rightharpoonup> element_class) \<Rightarrow>
     define_error + (string \<rightharpoonup> element_class)" where
  "customElements_define name cls registry =
     (if name \<in> dom registry then Inl DuplicateDefinition else Inr (registry(name \<mapsto> cls)))"

definition defineComponent ::
    "string \<Rightarrow> arg \<Rightarrow> factory option \<Rightarrow> (string \<rightharpoonup> element_class) \<Rightarrow>
     define_error + (string \<rightharpoonup> element_class)" where
  "defineComponent name propDefs fac registry =
     (case (case propDefs of
              ArgFactory f \<Rightarrow> ([], Some f)
            | ArgList ps \<Rightarrow> (ps, fac)) of
        (propDefs', fac') \<Rightarrow>
          customElements_define name
            \<lparr>observedAttributes = propDefs', class_factory = fac'\<rparr> registry)"

section \<open>The page as a sequence of platform events\<close>

text \<open>
  The platform constructs elements, connects and disconnects them and reports attribute
  changes; module-level user code may call a registration function outside any
  construction. An exception that escapes one event does not stop the page.
\<close>

datatype action =
    New "factory option" nat
  | Connect nat
  | Disconnect nat
  | AttrChange nat string jsval jsval
  | TopLevel hook closure

fun step :: "action \<Rightarrow> world \<Rightarrow> status \<times> world" where
  "step (New fac i) w = constructor fac i w"
| "step (Connect i) w = connectedCallback i w"
| "step (Disconnect i) w = disconnectedCallback i w"
| "step (AttrChange i name oldValue newValue) w = attributeChangedCallback i name oldValue newValue w"
| "step (TopLevel name cb) w = lifecycle name cb w"

fun steps :: "action list \<Rightarrow> world \<Rightarrow> world" where
  "steps [] w = w"
| "steps (a # as) w = steps as (snd (step a w))"

section \<open>Notions used to state the properties\<close>

text \<open>The callbacks an instance holds for a lifecycle point; none when the array is absent.\<close>

definition registered :: "nat \<Rightarrow> hook \<Rightarrow> world \<Rightarrow> closure list" where
  "registered i name w = (case hooks (heap w i) name of None \<Rightarrow> [] | Some cbs \<Rightarrow> cbs)"

text \<open>What was observed, and which reads happened, between an earlier state and a later one.\<close>

definition new_events :: "world \<Rightarrow> world \<Rightarrow> event list" where
  "new_events w w' = drop (length (trace w)) (trace w')"

definition new_reads :: "world \<Rightarrow> world \<Rightarrow> (nat option \<times> nat \<times> string) list" where
  "new_reads w w' = drop (length (readlog w)) (readlog w')"

text \<open>How often the computation of instance \<open>c\<close> rendered between two states.\<close>

definition reruns :: "nat \<Rightarrow> world \<Rightarrow> world \<Rightarrow> nat" where
  "reruns c w w' = count_list (new_events w w') (Rendered c)"


text \<open>
  Relations between a state and a later one that every step of user code respects
  (\<open>rel_user\<close>), and that moreover the firing of callbacks, the body of the computation
  and its runs respect (\<open>rel_run\<close>). They serve to carry a fact through all operations at
  once.
\<close>

definition rel_user :: "(world \<Rightarrow> world \<Rightarrow> bool) \<Rightarrow> bool" where
  "rel_user R \<longleftrightarrow>
     (\<forall>w. R w w) \<and> (\<forall>a b c. R a b \<longrightarrow> R b c \<longrightarrow> R a c) \<and>
     (\<forall>name cb w. R w (snd (createLifecycleMethod name cb w))) \<and>
     (\<forall>obj key w. R w (snd (reactive_get obj key w)))"

definition rel_body :: "(world \<Rightarrow> world \<Rightarrow> bool) \<Rightarrow> bool" where
  "rel_body R \<longleftrightarrow>
     rel_user R \<and>
     (\<forall>w e. R w (w\<lparr>trace := trace w @ [e]\<rparr>)) \<and>
     (\<forall>w i. R w (w\<lparr>heap := (heap w)(i := (heap w i)\<lparr>isMounted := True\<rparr>)\<rparr>))"

definition rel_run :: "(world \<Rightarrow> world \<Rightarrow> bool) \<Rightarrow> bool" where
  "rel_run R \<longleftrightarrow>
     rel_body R \<and>
     (\<forall>w c. R w (cleanup c w)) \<and>
     (\<forall>w x. R w (w\<lparr>activeEffect := x\<rparr>))"

text \<open>What user code leaves alone, and what no operation short of a construction or an
  attribute change alters.\<close>

definition user_frame :: "world \<Rightarrow> world \<Rightarrow> bool" where
  "user_frame w w' \<longleftrightarrow>
     trace w' = trace w \<and> activeEffect w' = activeEffect w \<and>
     (\<forall>j. isMounted (heap w' j) = isMounted (heap w j))"

definition keeps :: "world \<Rightarrow> world \<Rightarrow> bool" where
  "keeps w w' \<longleftrightarrow>
     currentInstance w' = currentInstance w \<and>
     (\<forall>j. props (heap w' j) = props (heap w j) \<and> template (heap w' j) = template (heap w j) \<and>
          (isMounted (heap w j) \<longrightarrow> isMounted (heap w' j))) \<and>
     (currentInstance w = None \<longrightarrow> (\<forall>j. hooks (heap w' j) = hooks (heap w j)))"

section \<open>Example components\<close>

text \<open>
  The component of the scenario of section 8: one observed attribute, \<^verbatim>\<open>count\<close>, read by
  the render function; the factory registers one callback for each lifecycle point.
\<close>

definition counter_factory :: factory where
  "counter_factory =
     \<lparr>setup_code = [Reg Hbm [Get ''a''], Reg Hm [Get ''b''], Reg Hbu [Get ''c''],
                    Reg Hu [Get ''d''], Reg Hum [Get ''e'']],
      render_fn = [Get ''count'']\<rparr>"

definition counter_page :: world where
  "counter_page = snd (constructor (Some counter_factory) 0 init)"

text \<open>A factory whose set-up code throws after registering a callback.\<close>

definition failing_factory :: factory where
  "failing_factory = \<lparr>setup_code = [Reg Hm [Get ''b''], Throw], render_fn = [Get ''count'']\<rparr>"

text \<open>A factory that registers nothing.\<close>

definition plain_factory :: factory where
  "plain_factory = \<lparr>setup_code = [Get ''title''], render_fn = [Get ''count'']\<rparr>"

text \<open>
  A factory whose beforeMount callback and render function both try to register a
  callback.
\<close>

definition late_factory :: factory where
  "late_factory =
     \<lparr>setup_code = [Reg Hbm [Reg Hm [Get ''x'']], Reg Hu [Get ''d'']],
      render_fn = [Get ''count'', Reg Hu [Get ''y'']]\<rparr>"


text \<open>
  The page after element 0 was built with the factory above and the construction of
  element 1 failed in its factory.
\<close>

definition stale_page :: world where
  "stale_page = steps [New (Some late_factory) 0, New (Some failing_factory) 1] init"

text \<open>A factory that calls \<^verbatim>\<open>onMounted\<close> twice and \<^verbatim>\<open>onUnmounted\<close> once.\<close>

definition mounted_factory :: factory where
  "mounted_factory =
     \<lparr>setup_code = [Reg Hm [Get ''a''], Reg Hm [Get ''b''], Reg Hum [Get ''c'']],
      render_fn = [Get ''count'']\<rparr>"

definition mounted_page :: world where
  "mounted_page = snd (constructor (Some mounted_factory) 0 init)"

text \<open>The callbacks that a sequence of registration calls hands over for one point, in
  call order.\<close>

fun calls_for :: "hook \<Rightarrow> nat \<Rightarrow> stmt list \<Rightarrow> closure list" where
  "calls_for name self [] = []"
| "calls_for name self (Reg name' body # ss) =
     (if name' = name then (self, body) # calls_for name self ss else calls_for name self ss)"
| "calls_for name self (s # ss) = calls_for name self ss"

text \<open>User code that only makes registration calls.\<close>

fun only_regs :: "stmt list \<Rightarrow> bool" where
  "only_regs [] = True"
| "only_regs (Reg name body # ss) = only_regs ss"
| "only_regs (s # ss) = False"

section \<open>Relations for the dependencies\<close>

text \<open>
  While computation \<open>c\<close> is the running one: it stays so, the read log only grows, and the
  dependents of a key gain \<open>c\<close>, at the end and once, exactly when \<open>c\<close> was not yet among
  them and the key was read.
\<close>

definition tracks :: "nat \<Rightarrow> world \<Rightarrow> world \<Rightarrow> bool" where
  "tracks c w w' \<longleftrightarrow>
     (activeEffect w = Some c \<longrightarrow>
        activeEffect w' = Some c \<and>
        (\<exists>d. readlog w' = readlog w @ d \<and>
           (\<forall>obj key. subs w' obj key =
              subs w obj key @
                (if c \<in> set (subs w obj key) \<or> (Some c, obj, key) \<notin> set d then [] else [c]))))"



text \<open>
  A component whose render function reads \<^verbatim>\<open>flag\<close> and then \<^verbatim>\<open>a\<close> when the flag is
  \<^verbatim>\<open>"on"\<close>, \<^verbatim>\<open>b\<close> otherwise. The page is built, the flag is switched on, then off again.
\<close>

definition cond_factory :: factory where
  "cond_factory =
     \<lparr>setup_code = [],
      render_fn = [IfEq ''flag'' (Own (JStr ''on'')) [Get ''a''] [Get ''b'']]\<rparr>"

definition cond_on :: world where
  "cond_on = steps [New (Some cond_factory) 0, AttrChange 0 ''flag'' JNull (JStr ''on'')] init"

definition cond_off :: world where
  "cond_off = snd (attributeChangedCallback 0 ''flag'' (JStr ''on'') (JStr ''off'') cond_on)"

section \<open>Facts carried through every operation\<close>

lemma lifecycle_eq [simp]: "lifecycle name = createLifecycleMethod name"
  by (cases name)
    (simp_all add: lifecycle_def onBeforeMount_def onMounted_def onBeforeUpdate_def
      onUpdated_def onUnmounted_def)

lemma obj_set_simps [simp]:
  "hooks (obj_set key v ob) = hooks ob"
  "template (obj_set key v ob) = template ob"
  "isMounted (obj_set key v ob) = isMounted ob"
  by (simp_all add: obj_set_def split: jsval.splits)

lemma assign_simps [simp]:
  "currentInstance (assign obj key v w) = currentInstance w"
  "activeEffect (assign obj key v w) = activeEffect w"
  "trace (assign obj key v w) = trace w"
  "readlog (assign obj key v w) = readlog w"
  "subs (assign obj key v w) = subs w"
  "hooks (heap (assign obj key v w) j) = hooks (heap w j)"
  "template (heap (assign obj key v w) j) = template (heap w j)"
  "isMounted (heap (assign obj key v w) j) = isMounted (heap w j)"
  by (simp_all add: assign_def)




lemma rel_userD:
  assumes "rel_user R"
  shows "R w w" and "R a b \<Longrightarrow> R b c \<Longrightarrow> R a c"
    and "R w (snd (createLifecycleMethod name cb w))"
    and "R w (snd (reactive_get obj key w))"
  using assms unfolding rel_user_def by blast+

lemma rel_user_exec_execs:
  assumes R: "rel_user R"
  shows "R w (snd (exec self s w))" and "R w (snd (execs self ss w))"
proof (induction self s w and self ss w rule: exec_execs.induct)
  case (1 self name body w)
  show ?case by (simp add: rel_userD(3) [OF R])
next
  case (2 self key w)
  show ?case by (simp add: rel_userD(4) [OF R])
next
  case (3 self key v a b w)
  obtain x w1 where g: "reactive_get self key w = (x, w1)" by (cases "reactive_get self key w")
  have f1: "R w w1" using rel_userD(4) [OF R, of w self key] g by simp
  show ?case
  proof (cases "x = v")
    case True
    with 3(1) [OF g [symmetric]] have "R w1 (snd (execs self a w1))" by simp
    with f1 have "R w (snd (execs self a w1))" by (rule rel_userD(2) [OF R])
    with g True show ?thesis by simp
  next
    case False
    with 3(2) [OF g [symmetric]] have "R w1 (snd (execs self b w1))" by simp
    with f1 have "R w (snd (execs self b w1))" by (rule rel_userD(2) [OF R])
    with g False show ?thesis by simp
  qed
next
  case (4 self w)
  show ?case by (simp add: rel_userD(1) [OF R])
next
  case (5 self w)
  show ?case by (simp add: rel_userD(1) [OF R])
next
  case (6 self s ss w)
  obtain st w1 where e: "exec self s w = (st, w1)" by (cases "exec self s w")
  have f1: "R w w1" using 6(1) e by simp
  show ?case
  proof (cases st)
    case Normal
    with 6(2) [OF e [symmetric]] have "R w1 (snd (execs self ss w1))" by simp
    with f1 have "R w (snd (execs self ss w1))" by (rule rel_userD(2) [OF R])
    with e Normal show ?thesis by simp
  next
    case Thrown
    with e f1 show ?thesis by simp
  qed
qed

lemma rel_bodyD:
  assumes "rel_body R"
  shows "rel_user R" and "R w (w\<lparr>trace := trace w @ [e]\<rparr>)"
    and "R w (w\<lparr>heap := (heap w)(i := (heap w i)\<lparr>isMounted := True\<rparr>)\<rparr>)"
  using assms unfolding rel_body_def by blast+

lemma rel_body_trans: "rel_body R \<Longrightarrow> R a b \<Longrightarrow> R b c \<Longrightarrow> R a c"
  using rel_userD(2) rel_bodyD(1) by blast

lemma rel_body_forEach:
  assumes R: "rel_body R"
  shows "R w (snd (forEach i name cbs w))"
proof (induction cbs arbitrary: w)
  case Nil
  show ?case using rel_userD(1) [OF rel_bodyD(1) [OF R]] by simp
next
  case (Cons cb cbs)
  let ?w0 = "w\<lparr>trace := trace w @ [Fired i name cb]\<rparr>"
  obtain st w1 where e: "execs (fst cb) (snd cb) ?w0 = (st, w1)"
    by (cases "execs (fst cb) (snd cb) ?w0")
  have "R ?w0 w1" using rel_user_exec_execs(2) [OF rel_bodyD(1) [OF R], of ?w0 "fst cb" "snd cb"] e by simp
  with rel_bodyD(2) [OF R, of w] have f1: "R w w1" by (rule rel_body_trans [OF R])
  show ?case
  proof (cases st)
    case Normal
    from f1 Cons.IH [of w1] have "R w (snd (forEach i name cbs w1))" by (rule rel_body_trans [OF R])
    with e Normal show ?thesis by simp
  next
    case Thrown
    with e f1 show ?thesis by simp
  qed
qed

lemma rel_body_fire:
  assumes R: "rel_body R"
  shows "R w (snd (fire i name w))"
  using rel_body_forEach [OF R] rel_userD(1) [OF rel_bodyD(1) [OF R]]
  by (simp add: fire_def split: option.splits)

lemma rel_body_effect_body:
  assumes R: "rel_body R"
  shows "R w (snd (effect_body i w))"
proof -
  let ?m = "if \<not> isMounted (heap w i) then fire i Hbu w else (Normal, w)"
  obtain st1 w1 where a: "?m = (st1, w1)" by (cases ?m)
  have r1: "R w w1"
    using a rel_body_fire [OF R, of w i Hbu] rel_userD(1) [OF rel_bodyD(1) [OF R], of w]
    by (auto split: if_splits)
  show ?thesis
  proof (cases st1)
    case Thrown
    with a r1 show ?thesis by (simp add: effect_body_def)
  next
    case Normal
    obtain st2 w2 where b: "execs i (template (heap w1 i)) w1 = (st2, w2)"
      by (cases "execs i (template (heap w1 i)) w1")
    have "R w1 w2" using rel_user_exec_execs(2) [OF rel_bodyD(1) [OF R], of w1 i "template (heap w1 i)"] b by simp
    with r1 have r2: "R w w2" by (rule rel_body_trans [OF R])
    show ?thesis
    proof (cases st2)
      case Thrown
      with a b Normal r2 show ?thesis by (simp add: effect_body_def)
    next
      case n2: Normal
      let ?w3 = "w2\<lparr>trace := trace w2 @ [Rendered i]\<rparr>"
      from r2 rel_bodyD(2) [OF R, of w2] have r3: "R w ?w3" by (rule rel_body_trans [OF R])
      have r4: "R w (snd (fire i Hu ?w3))"
        using r3 rel_body_fire [OF R, of ?w3 i Hu] by (rule rel_body_trans [OF R])
      have r5: "R w (?w3\<lparr>heap := (heap ?w3)(i := (heap ?w3 i)\<lparr>isMounted := True\<rparr>)\<rparr>)"
        using r3 rel_bodyD(3) [OF R, of ?w3 i] by (rule rel_body_trans [OF R])
      from a b Normal n2 r4 r5 show ?thesis
        by (simp add: effect_body_def Let_def)
    qed
  qed
qed

lemma rel_runD:
  assumes "rel_run R"
  shows "rel_body R" and "R w (cleanup c w)" and "R w (w\<lparr>activeEffect := x\<rparr>)"
  using assms unfolding rel_run_def by blast+

lemma rel_run_trans: "rel_run R \<Longrightarrow> R a b \<Longrightarrow> R b c \<Longrightarrow> R a c"
  using rel_body_trans rel_runD(1) by blast

lemma rel_run_refl: "rel_run R \<Longrightarrow> R a a"
  using rel_userD(1) rel_bodyD(1) rel_runD(1) by blast

lemma rel_run_run:
  assumes R: "rel_run R"
  shows "R w (snd (run c w))"
proof -
  let ?w0 = "cleanup c w"
  let ?w1 = "?w0\<lparr>activeEffect := Some c\<rparr>"
  obtain st w2 where e: "effect_body c ?w1 = (st, w2)" by (cases "effect_body c ?w1")
  have "R w ?w1" using rel_runD(2) [OF R, of w c] rel_runD(3) [OF R, of ?w0 "Some c"]
    by (rule rel_run_trans [OF R])
  moreover have "R ?w1 w2" using rel_body_effect_body [OF rel_runD(1) [OF R], of ?w1 c] e by simp
  ultimately have "R w w2" by (rule rel_run_trans [OF R])
  then have "R w (w2\<lparr>activeEffect := activeEffect w\<rparr>)"
    using rel_runD(3) [OF R, of w2 "activeEffect w"] by (rule rel_run_trans [OF R])
  with e show ?thesis by (simp add: run_def Let_def)
qed

lemma rel_run_run_all:
  assumes R: "rel_run R"
  shows "R w (snd (run_all cs w))"
proof (induction cs arbitrary: w)
  case Nil
  show ?case using rel_run_refl [OF R] by simp
next
  case (Cons c cs)
  obtain st w1 where e: "run c w = (st, w1)" by (cases "run c w")
  have f1: "R w w1" using rel_run_run [OF R, of w c] e by simp
  show ?case
  proof (cases st)
    case Normal
    from f1 Cons.IH [of w1] have "R w (snd (run_all cs w1))" by (rule rel_run_trans [OF R])
    with e Normal show ?thesis by simp
  next
    case Thrown
    with e f1 show ?thesis by simp
  qed
qed

lemma rel_run_trigger:
  assumes R: "rel_run R"
  shows "R w (snd (trigger obj key w))"
  using rel_run_run_all [OF R] by (simp add: trigger_def)

lemma rel_user_user_frame: "rel_user user_frame"
  unfolding rel_user_def user_frame_def
  by (simp add: createLifecycleMethod_def reactive_get_def track_def split: option.splits)

lemma rel_run_keeps: "rel_run keeps"
  unfolding rel_run_def rel_body_def rel_user_def keeps_def
  by (simp add: createLifecycleMethod_def reactive_get_def track_def cleanup_def split: option.splits)

lemma execs_trace [simp]: "trace (snd (execs self ss w)) = trace w"
  using rel_user_exec_execs(2) [OF rel_user_user_frame, of w self ss] by (simp add: user_frame_def)

lemma execs_activeEffect [simp]: "activeEffect (snd (execs self ss w)) = activeEffect w"
  using rel_user_exec_execs(2) [OF rel_user_user_frame, of w self ss] by (simp add: user_frame_def)

lemma execs_isMounted [simp]: "isMounted (heap (snd (execs self ss w)) j) = isMounted (heap w j)"
  using rel_user_exec_execs(2) [OF rel_user_user_frame, of w self ss] by (simp add: user_frame_def)

lemma execs_keeps: "keeps w (snd (execs self ss w))"
  using rel_user_exec_execs(2) rel_run_keeps unfolding rel_run_def rel_body_def by blast

lemma execs_currentInstance [simp]: "currentInstance (snd (execs self ss w)) = currentInstance w"
  using execs_keeps [of w self ss] by (simp add: keeps_def)

lemma execs_template [simp]: "template (heap (snd (execs self ss w)) j) = template (heap w j)"
  using execs_keeps [of w self ss] by (simp add: keeps_def)

lemma execs_props [simp]: "props (heap (snd (execs self ss w)) j) = props (heap w j)"
  using execs_keeps [of w self ss] by (simp add: keeps_def)

lemma execs_hooks_quiet:
  "currentInstance w = None \<Longrightarrow> hooks (heap (snd (execs self ss w)) j) = hooks (heap w j)"
  using execs_keeps [of w self ss] by (simp add: keeps_def)

lemma registered_quiet:
  "currentInstance w = None \<Longrightarrow> registered j name (snd (execs self ss w)) = registered j name w"
  by (simp add: registered_def execs_hooks_quiet)

lemma fire_registered: "fire i name w = forEach i name (registered i name w) w"
  by (simp add: fire_def registered_def split: option.splits)

text \<open>The callbacks of one firing are invoked in the order of the array.\<close>

lemma forEach_trace:
  "fst (forEach i name cbs w) = Normal \<Longrightarrow>
   trace (snd (forEach i name cbs w)) = trace w @ map (Fired i name) cbs"
proof (induction cbs arbitrary: w)
  case Nil
  show ?case by simp
next
  case (Cons cb cbs)
  let ?w0 = "w\<lparr>trace := trace w @ [Fired i name cb]\<rparr>"
  obtain st w1 where e: "execs (fst cb) (snd cb) ?w0 = (st, w1)"
    by (cases "execs (fst cb) (snd cb) ?w0")
  have t1: "trace w1 = trace w @ [Fired i name cb]"
    using execs_trace [of "fst cb" "snd cb" ?w0] e by simp
  from Cons.prems e have st: "st = Normal" by (cases st) simp_all
  with Cons.prems e have "fst (forEach i name cbs w1) = Normal" by simp
  from Cons.IH [OF this] t1 e st show ?case by simp
qed

lemma forEach_trace_prefix:
  "\<exists>n. trace (snd (forEach i name cbs w)) = trace w @ map (Fired i name) (take n cbs)"
proof (induction cbs arbitrary: w)
  case Nil
  show ?case by simp
next
  case (Cons cb cbs)
  let ?w0 = "w\<lparr>trace := trace w @ [Fired i name cb]\<rparr>"
  obtain st w1 where e: "execs (fst cb) (snd cb) ?w0 = (st, w1)"
    by (cases "execs (fst cb) (snd cb) ?w0")
  have t1: "trace w1 = trace w @ [Fired i name cb]"
    using execs_trace [of "fst cb" "snd cb" ?w0] e by simp
  show ?case
  proof (cases st)
    case Normal
    from Cons.IH [of w1] obtain n where
      "trace (snd (forEach i name cbs w1)) = trace w1 @ map (Fired i name) (take n cbs)" ..
    with t1 e Normal have
      "trace (snd (forEach i name (cb # cbs) w)) = trace w @ map (Fired i name) (take (Suc n) (cb # cbs))"
      by simp
    then show ?thesis ..
  next
    case Thrown
    with t1 e have
      "trace (snd (forEach i name (cb # cbs) w)) = trace w @ map (Fired i name) (take (Suc 0) (cb # cbs))"
      by simp
    then show ?thesis ..
  qed
qed

lemma fire_trace:
  "fst (fire i name w) = Normal \<Longrightarrow>
   trace (snd (fire i name w)) = trace w @ map (Fired i name) (registered i name w)"
  by (simp add: fire_registered forEach_trace)


lemma fire_keeps: "keeps w (snd (fire i name w))"
  using rel_body_fire rel_run_keeps unfolding rel_run_def by blast

lemma effect_body_keeps: "keeps w (snd (effect_body i w))"
  using rel_body_effect_body rel_run_keeps unfolding rel_run_def by blast

lemma run_keeps: "keeps w (snd (run i w))"
  using rel_run_run [OF rel_run_keeps] .

lemma trigger_keeps: "keeps w (snd (trigger obj key w))"
  using rel_run_trigger [OF rel_run_keeps] .

lemma forEach_isMounted [simp]:
  "isMounted (heap (snd (forEach i name cbs w)) j) = isMounted (heap w j)"
proof (induction cbs arbitrary: w)
  case Nil
  show ?case by simp
next
  case (Cons cb cbs)
  let ?w0 = "w\<lparr>trace := trace w @ [Fired i name cb]\<rparr>"
  obtain st w1 where e: "execs (fst cb) (snd cb) ?w0 = (st, w1)"
    by (cases "execs (fst cb) (snd cb) ?w0")
  have "isMounted (heap w1 j) = isMounted (heap w j)"
    using execs_isMounted [of "fst cb" "snd cb" ?w0 j] e by simp
  with Cons.IH [of w1] e show ?case by (cases st) simp_all
qed

lemma fire_isMounted [simp]: "isMounted (heap (snd (fire i name w)) j) = isMounted (heap w j)"
  by (simp add: fire_registered)

text \<open>One normal run of the body, started with no instance current.\<close>

lemma effect_body_first:
  assumes q: "currentInstance w = None" and m: "\<not> isMounted (heap w i)"
    and n: "fst (effect_body i w) = Normal"
  shows "trace (snd (effect_body i w)) =
           trace w @ map (Fired i Hbu) (registered i Hbu w) @ [Rendered i]"
    and "isMounted (heap (snd (effect_body i w)) i)"
proof -
  obtain st1 w1 where a: "fire i Hbu w = (st1, w1)" by (cases "fire i Hbu w")
  obtain st2 w2 where b: "execs i (template (heap w1 i)) w1 = (st2, w2)"
    by (cases "execs i (template (heap w1 i)) w1")
  from n m a have s1: "st1 = Normal" by (cases st1) (simp_all add: effect_body_def)
  from n m a b s1 have s2: "st2 = Normal" by (cases st2) (simp_all add: effect_body_def)
  have t1: "trace w1 = trace w @ map (Fired i Hbu) (registered i Hbu w)"
    using fire_trace [of i Hbu w] a s1 by simp
  have t2: "trace w2 = trace w1" using execs_trace [of i "template (heap w1 i)" w1] b by simp
  have m1: "\<not> isMounted (heap w1 i)" using fire_isMounted [of i Hbu w i] a m by simp
  have m2: "\<not> isMounted (heap w2 i)"
    using execs_isMounted [of i "template (heap w1 i)" w1 i] b m1 by simp
  from a b s1 s2 m m2 t1 t2
  show "trace (snd (effect_body i w)) =
           trace w @ map (Fired i Hbu) (registered i Hbu w) @ [Rendered i]"
    by (simp add: effect_body_def Let_def)
  from a b s1 s2 m m2 show "isMounted (heap (snd (effect_body i w)) i)"
    by (simp add: effect_body_def Let_def)
qed

lemma effect_body_later:
  assumes q: "currentInstance w = None" and m: "isMounted (heap w i)"
    and n: "fst (effect_body i w) = Normal"
  shows "trace (snd (effect_body i w)) =
           trace w @ Rendered i # map (Fired i Hu) (registered i Hu w)"
    and "isMounted (heap (snd (effect_body i w)) i)"
proof -
  obtain st2 w2 where b: "execs i (template (heap w i)) w = (st2, w2)"
    by (cases "execs i (template (heap w i)) w")
  let ?w3 = "w2\<lparr>trace := trace w2 @ [Rendered i]\<rparr>"
  from n m b have s2: "st2 = Normal" by (cases st2) (simp_all add: effect_body_def)
  have t2: "trace w2 = trace w" using execs_trace [of i "template (heap w i)" w] b by simp
  have m2: "isMounted (heap w2 i)"
    using execs_isMounted [of i "template (heap w i)" w i] b m by simp
  have r2: "registered i Hu w2 = registered i Hu w"
    using registered_quiet [OF q, of i Hu i "template (heap w i)"] b by simp
  then have r3: "registered i Hu ?w3 = registered i Hu w" by (simp add: registered_def)
  from n m b s2 m2 have n3: "fst (fire i Hu ?w3) = Normal"
    by (simp add: effect_body_def Let_def)
  from fire_trace [OF n3] r3 t2 m b s2 m2
  show "trace (snd (effect_body i w)) =
           trace w @ Rendered i # map (Fired i Hu) (registered i Hu w)"
    by (simp add: effect_body_def Let_def)
  from m b s2 m2 show "isMounted (heap (snd (effect_body i w)) i)"
    by (simp add: effect_body_def Let_def)
qed

section \<open>Registration and the component definition\<close>

lemma register_quiet: "currentInstance w = None \<Longrightarrow> createLifecycleMethod name cb w = (Normal, w)"
  by (simp add: createLifecycleMethod_def)

lemma register_current:
  "currentInstance w = Some c \<Longrightarrow>
   createLifecycleMethod name cb w =
     (Normal, w\<lparr>heap := (heap w)(c := (heap w c)\<lparr>hooks := (hooks (heap w c))(name \<mapsto> registered c name w @ [cb])\<rparr>)\<rparr>)"
  by (simp add: createLifecycleMethod_def registered_def)

lemma register_registered:
  "currentInstance w = Some c \<Longrightarrow>
   registered c' name' (snd (createLifecycleMethod name cb w)) =
     (if c' = c \<and> name' = name then registered c name w @ [cb] else registered c' name' w)"
  by (simp add: register_current) (simp add: registered_def)

lemma register_currentInstance [simp]:
  "currentInstance (snd (createLifecycleMethod name cb w)) = currentInstance w"
  by (simp add: createLifecycleMethod_def split: option.splits)

lemma register_many:
  "currentInstance w = Some c \<Longrightarrow>
   currentInstance (fold (\<lambda>cb w. snd (createLifecycleMethod name cb w)) cbs w) = Some c \<and>
   registered c' name' (fold (\<lambda>cb w. snd (createLifecycleMethod name cb w)) cbs w) =
     (if c' = c \<and> name' = name then registered c name w @ cbs else registered c' name' w)"
proof (induction cbs arbitrary: w)
  case Nil
  then show ?case by simp
next
  case (Cons cb cbs)
  let ?w1 = "snd (createLifecycleMethod name cb w)"
  have c1: "currentInstance ?w1 = Some c" using Cons.prems by simp
  from Cons.IH [OF c1]
    register_registered [OF Cons.prems, where c' = c and name' = name and name = name and cb = cb]
    register_registered [OF Cons.prems, where c' = c' and name' = name' and name = name and cb = cb]
  show ?case by auto
qed

lemma new_events_append: "trace w' = trace w @ es \<Longrightarrow> new_events w w' = es"
  by (simp add: new_events_def)

text \<open>
  C5. Called while no instance is current, each of the five registration functions returns
  normally and leaves the whole state as it was: no callback array of any instance
  changes, and the page goes on exactly as if the call had not been made.
\<close>

theorem registration_outside_construction:
  assumes "currentInstance w = None"
  shows "onBeforeMount cb w = (Normal, w) \<and> onMounted cb w = (Normal, w) \<and>
         onBeforeUpdate cb w = (Normal, w) \<and> onUpdated cb w = (Normal, w) \<and>
         onUnmounted cb w = (Normal, w) \<and>
         steps (TopLevel name cb # as) w = steps as w"
  using assms
  by (simp add: onBeforeMount_def onMounted_def onBeforeUpdate_def onUpdated_def
      onUnmounted_def register_quiet)

theorem registration_outside_construction_witness:
  "currentInstance init = None \<and>
   onBeforeMount (0, [Get ''count'']) init = (Normal, init) \<and>
   onMounted (0, [Get ''count'']) init = (Normal, init) \<and>
   onBeforeUpdate (0, [Get ''count'']) init = (Normal, init) \<and>
   onUpdated (0, [Get ''count'']) init = (Normal, init) \<and>
   onUnmounted (0, [Get ''count'']) init = (Normal, init) \<and>
   steps [TopLevel Hm (0, [Get ''count'']),
          New (Some \<lparr>setup_code = [], render_fn = [Get ''count'']\<rparr>) 1, Connect 1] init =
   steps [New (Some \<lparr>setup_code = [], render_fn = [Get ''count'']\<rparr>) 1, Connect 1] init"
proof -
  have h: "currentInstance init = None" by (simp add: init_def)
  from registration_outside_construction [OF h] h show ?thesis by blast
qed

text \<open>
  C8. In the two-argument form the second argument is the factory: the class is
  registered with that factory and an empty list of observed attributes, whatever the
  third parameter holds. In the three-argument form the class gets the given list,
  unchanged, and the given factory.
\<close>

theorem defineComponent_optional_propDefs:
  "defineComponent name (ArgFactory f) fac registry =
     customElements_define name \<lparr>observedAttributes = [], class_factory = Some f\<rparr> registry \<and>
   defineComponent name (ArgList ps) (Some f) registry =
     customElements_define name \<lparr>observedAttributes = ps, class_factory = Some f\<rparr> registry \<and>
   (name \<notin> dom registry \<longrightarrow>
      defineComponent name (ArgFactory f) None registry =
        Inr (registry(name \<mapsto> \<lparr>observedAttributes = [], class_factory = Some f\<rparr>)) \<and>
      defineComponent name (ArgList ps) (Some f) registry =
        Inr (registry(name \<mapsto> \<lparr>observedAttributes = ps, class_factory = Some f\<rparr>)))"
  by (simp add: defineComponent_def customElements_define_def)

theorem defineComponent_optional_propDefs_witness:
  "''my-counter'' \<notin> dom (Map.empty :: string \<rightharpoonup> element_class) \<and>
   defineComponent ''my-counter'' (ArgFactory \<lparr>setup_code = [], render_fn = [Get ''count'']\<rparr>)
       None Map.empty =
     Inr [''my-counter'' \<mapsto> \<lparr>observedAttributes = [],
            class_factory = Some \<lparr>setup_code = [], render_fn = [Get ''count'']\<rparr>\<rparr>] \<and>
   defineComponent ''my-counter'' (ArgList [''count''])
       (Some \<lparr>setup_code = [], render_fn = [Get ''count'']\<rparr>) Map.empty =
     Inr [''my-counter'' \<mapsto> \<lparr>observedAttributes = [''count''],
            class_factory = Some \<lparr>setup_code = [], render_fn = [Get ''count'']\<rparr>\<rparr>]"
proof -
  have h: "''my-counter'' \<notin> dom (Map.empty :: string \<rightharpoonup> element_class)" by simp
  from defineComponent_optional_propDefs
    [where name = "''my-counter''" and f = "\<lparr>setup_code = [], render_fn = [Get ''count'']\<rparr>"
       and fac = None and registry = Map.empty and ps = "[''count'']"] h
  show ?thesis by blast
qed

section \<open>The computation and the constructor\<close>

lemma cleanup_simps [simp]:
  "currentInstance (cleanup c w) = currentInstance w"
  "heap (cleanup c w) = heap w"
  "activeEffect (cleanup c w) = activeEffect w"
  "trace (cleanup c w) = trace w"
  "readlog (cleanup c w) = readlog w"
  "subs (cleanup c w) obj key = removeAll c (subs w obj key)"
  by (simp_all add: cleanup_def)

lemma registered_cong: "heap w' = heap w \<Longrightarrow> registered i name w' = registered i name w"
  by (simp add: registered_def)

lemma run_unfold:
  "run c w = (fst (effect_body c ((cleanup c w)\<lparr>activeEffect := Some c\<rparr>)),
              (snd (effect_body c ((cleanup c w)\<lparr>activeEffect := Some c\<rparr>)))
                \<lparr>activeEffect := activeEffect w\<rparr>)"
  by (simp add: run_def Let_def split: prod.splits)

lemma run_first:
  assumes q: "currentInstance w = None" and m: "\<not> isMounted (heap w i)"
    and n: "fst (run i w) = Normal"
  shows "trace (snd (run i w)) = trace w @ map (Fired i Hbu) (registered i Hbu w) @ [Rendered i]"
    and "isMounted (heap (snd (run i w)) i)"
proof -
  let ?w1 = "(cleanup i w)\<lparr>activeEffect := Some i\<rparr>"
  have q1: "currentInstance ?w1 = None" using q by simp
  have m1: "\<not> isMounted (heap ?w1 i)" using m by simp
  have n1: "fst (effect_body i ?w1) = Normal" using n by (simp add: run_unfold)
  have r: "registered i Hbu ?w1 = registered i Hbu w" by (simp add: registered_def)
  from effect_body_first(1) [OF q1 m1 n1] r
  show "trace (snd (run i w)) = trace w @ map (Fired i Hbu) (registered i Hbu w) @ [Rendered i]"
    by (simp add: run_unfold)
  from effect_body_first(2) [OF q1 m1 n1] show "isMounted (heap (snd (run i w)) i)"
    by (simp add: run_unfold)
qed

lemma run_later:
  assumes q: "currentInstance w = None" and m: "isMounted (heap w i)"
    and n: "fst (run i w) = Normal"
  shows "trace (snd (run i w)) = trace w @ Rendered i # map (Fired i Hu) (registered i Hu w)"
    and "isMounted (heap (snd (run i w)) i)"
proof -
  let ?w1 = "(cleanup i w)\<lparr>activeEffect := Some i\<rparr>"
  have q1: "currentInstance ?w1 = None" using q by simp
  have m1: "isMounted (heap ?w1 i)" using m by simp
  have n1: "fst (effect_body i ?w1) = Normal" using n by (simp add: run_unfold)
  have r: "registered i Hu ?w1 = registered i Hu w" by (simp add: registered_def)
  from effect_body_later(1) [OF q1 m1 n1] r
  show "trace (snd (run i w)) = trace w @ Rendered i # map (Fired i Hu) (registered i Hu w)"
    by (simp add: run_unfold)
  from effect_body_later(2) [OF q1 m1 n1] show "isMounted (heap (snd (run i w)) i)"
    by (simp add: run_unfold)
qed

lemma keeps_quiet:
  "keeps w w' \<Longrightarrow> currentInstance w = None \<Longrightarrow>
   currentInstance w' = None \<and> (\<forall>j. hooks (heap w' j) = hooks (heap w j))"
  by (simp add: keeps_def)

lemma keeps_registered:
  "keeps w w' \<Longrightarrow> currentInstance w = None \<Longrightarrow> registered j name w' = registered j name w"
  by (simp add: keeps_def registered_def)

lemma call_factory_snd:
  "snd (call_factory fac i w) =
     (case fac of
        None \<Rightarrow> w
      | Some f \<Rightarrow>
          (case fst (execs i (setup_code f) w) of
             Thrown \<Rightarrow> snd (execs i (setup_code f) w)
           | Normal \<Rightarrow>
               (snd (execs i (setup_code f) w))
                 \<lparr>heap := (heap (snd (execs i (setup_code f) w)))
                    (i := (heap (snd (execs i (setup_code f) w)) i)\<lparr>template := render_fn f\<rparr>)\<rparr>))"
  by (simp add: call_factory_def split: option.splits prod.splits status.splits)

lemma call_factory_simps [simp]:
  "trace (snd (call_factory fac i w)) = trace w"
  "currentInstance (snd (call_factory fac i w)) = currentInstance w"
  "activeEffect (snd (call_factory fac i w)) = activeEffect w"
  "isMounted (heap (snd (call_factory fac i w)) j) = isMounted (heap w j)"
  "props (heap (snd (call_factory fac i w)) j) = props (heap w j)"
  by (simp_all add: call_factory_snd split: option.splits status.splits)

lemma call_factory_hooks_quiet:
  "currentInstance w = None \<Longrightarrow> hooks (heap (snd (call_factory fac i w)) j) = hooks (heap w j)"
  by (simp add: call_factory_snd execs_hooks_quiet split: option.splits status.splits)

text \<open>The constructor, split at the factory call.\<close>

lemma constructor_thrown:
  "fst (call_factory fac i (w\<lparr>heap := (heap w)(i := blank), currentInstance := Some i\<rparr>)) = Thrown \<Longrightarrow>
   constructor fac i w =
     (Thrown, snd (call_factory fac i (w\<lparr>heap := (heap w)(i := blank), currentInstance := Some i\<rparr>)))"
  by (cases "call_factory fac i (w\<lparr>heap := (heap w)(i := blank), currentInstance := Some i\<rparr>)")
    (simp add: constructor_def Let_def)

lemma constructor_normal:
  "fst (call_factory fac i (w\<lparr>heap := (heap w)(i := blank), currentInstance := Some i\<rparr>)) = Normal \<Longrightarrow>
   constructor fac i w =
     (case fire i Hbm
        ((snd (call_factory fac i (w\<lparr>heap := (heap w)(i := blank), currentInstance := Some i\<rparr>)))
           \<lparr>currentInstance := None\<rparr>) of
        (Thrown, w4) \<Rightarrow> (Thrown, w4)
      | (Normal, w4) \<Rightarrow> run i w4)"
  by (cases "call_factory fac i (w\<lparr>heap := (heap w)(i := blank), currentInstance := Some i\<rparr>)")
    (simp add: constructor_def Let_def)

lemma constructor_pointer:
  "currentInstance (snd (constructor fac i w)) =
     (case fst (call_factory fac i (w\<lparr>heap := (heap w)(i := blank), currentInstance := Some i\<rparr>)) of
        Normal \<Rightarrow> None
      | Thrown \<Rightarrow> Some i)"
proof -
  let ?w1 = "w\<lparr>heap := (heap w)(i := blank), currentInstance := Some i\<rparr>"
  show ?thesis
  proof (cases "fst (call_factory fac i ?w1)")
    case Thrown
    with constructor_thrown [OF Thrown] show ?thesis by simp
  next
    case Normal
    let ?w3 = "(snd (call_factory fac i ?w1))\<lparr>currentInstance := None\<rparr>"
    obtain st4 w4 where e: "fire i Hbm ?w3 = (st4, w4)" by (cases "fire i Hbm ?w3")
    have c4: "currentInstance w4 = None" using fire_keeps [of ?w3 i Hbm] e by (simp add: keeps_def)
    have "currentInstance (snd (run i w4)) = None" using run_keeps [of w4 i] c4 by (simp add: keeps_def)
    with constructor_normal [OF Normal] e c4 Normal show ?thesis by (cases st4) simp_all
  qed
qed

lemma constructor_hooks:
  assumes n: "fst (call_factory fac i (w\<lparr>heap := (heap w)(i := blank), currentInstance := Some i\<rparr>)) = Normal"
  shows "hooks (heap (snd (constructor fac i w)) j) =
         hooks (heap (snd (call_factory fac i (w\<lparr>heap := (heap w)(i := blank), currentInstance := Some i\<rparr>))) j)"
proof -
  let ?w1 = "w\<lparr>heap := (heap w)(i := blank), currentInstance := Some i\<rparr>"
  let ?w3 = "(snd (call_factory fac i ?w1))\<lparr>currentInstance := None\<rparr>"
  obtain st4 w4 where e: "fire i Hbm ?w3 = (st4, w4)" by (cases "fire i Hbm ?w3")
  have k4: "currentInstance w4 = None \<and> (\<forall>j. hooks (heap w4 j) = hooks (heap ?w3 j))"
    using keeps_quiet [OF fire_keeps [of ?w3 i Hbm]] e by simp
  have k5: "\<forall>j. hooks (heap (snd (run i w4)) j) = hooks (heap w4 j)"
    using keeps_quiet [OF run_keeps [of w4 i]] k4 by simp
  from constructor_normal [OF n] e k4 k5 show ?thesis by (cases st4) simp_all
qed

lemma constructor_trace:
  assumes n: "fst (constructor fac i w) = Normal"
  shows "trace (snd (constructor fac i w)) =
           trace w @ map (Fired i Hbm) (registered i Hbm (snd (constructor fac i w))) @
             map (Fired i Hbu) (registered i Hbu (snd (constructor fac i w))) @ [Rendered i]"
    and "isMounted (heap (snd (constructor fac i w)) i)"
proof -
  let ?w1 = "w\<lparr>heap := (heap w)(i := blank), currentInstance := Some i\<rparr>"
  let ?w3 = "(snd (call_factory fac i ?w1))\<lparr>currentInstance := None\<rparr>"
  have f: "fst (call_factory fac i ?w1) = Normal"
  proof (cases "fst (call_factory fac i ?w1)")
    case Thrown
    from constructor_thrown [OF Thrown] n show ?thesis by simp
  qed simp
  obtain st4 w4 where e: "fire i Hbm ?w3 = (st4, w4)" by (cases "fire i Hbm ?w3")
  from constructor_normal [OF f] e n have s4: "st4 = Normal" by (cases st4) simp_all
  with constructor_normal [OF f] e have c: "constructor fac i w = run i w4" by simp
  have k4: "currentInstance w4 = None" "\<And>name. registered i name w4 = registered i name ?w3"
    using keeps_quiet [OF fire_keeps [of ?w3 i Hbm]] keeps_registered [OF fire_keeps [of ?w3 i Hbm]] e
    by simp_all
  have k5: "\<And>name. registered i name (snd (run i w4)) = registered i name w4"
    using keeps_registered [OF run_keeps [of w4 i] k4(1)] by simp
  have t4: "trace w4 = trace w @ map (Fired i Hbm) (registered i Hbm ?w3)"
    using fire_trace [of i Hbm ?w3] e s4 by simp
  have "\<not> isMounted (heap (snd (fire i Hbm ?w3)) i)" by (simp add: blank_def)
  then have m4: "\<not> isMounted (heap w4 i)" unfolding e by simp
  from n c have n5: "fst (run i w4) = Normal" by simp
  from run_first(1) [OF k4(1) m4 n5] t4 k4(2) k5 c
  show "trace (snd (constructor fac i w)) =
           trace w @ map (Fired i Hbm) (registered i Hbm (snd (constructor fac i w))) @
             map (Fired i Hbu) (registered i Hbu (snd (constructor fac i w))) @ [Rendered i]"
    by simp
  from run_first(2) [OF k4(1) m4 n5] c show "isMounted (heap (snd (constructor fac i w)) i)"
    by simp
qed

section \<open>Evaluation of the examples, and further facts\<close>

lemmas eval_defs = constructor_def call_factory_def fire_def run_def effect_body_def
  cleanup_def reactive_get_def track_def createLifecycleMethod_def init_def blank_def Let_def
  counter_factory_def attributeChangedCallback_def reactive_set_def trigger_def
  connectedCallback_def disconnectedCallback_def failing_factory_def plain_factory_def
  lifecycle_def onBeforeMount_def onMounted_def onBeforeUpdate_def onUpdated_def onUnmounted_def
  assign_def obj_set_def obj_get_def object_prototype_keys_def

lemma counter_page_facts:
  "fst (constructor (Some counter_factory) 0 init) = Normal"
  "currentInstance counter_page = None"
  "trace counter_page = [Fired 0 Hbm (0, [Get ''a'']), Fired 0 Hbu (0, [Get ''c'']), Rendered 0]"
  "isMounted (heap counter_page 0)"
  "subs counter_page 0 ''count'' = [0]"
  "subs counter_page 0 ''a'' = []"
  "registered 0 Hu counter_page = [(0, [Get ''d''])]"
  "registered 0 Hbm counter_page = [(0, [Get ''a''])]"
  "registered 0 Hbu counter_page = [(0, [Get ''c''])]"
  "activeEffect counter_page = None"
  unfolding counter_page_def registered_def
  by (simp_all add: eval_defs)

lemma counter_page_change:
  "fst (attributeChangedCallback 0 ''count'' JNull (JStr ''1'') counter_page) = Normal"
  "fst (run 0 counter_page) = Normal"
  unfolding counter_page_def registered_def
  by (simp_all add: eval_defs)


lemma effect_body_shape:
  assumes n: "fst (effect_body i w) = Normal"
  shows "\<exists>cbs. trace (snd (effect_body i w)) =
           trace w @ (if isMounted (heap w i) then Rendered i # map (Fired i Hu) cbs
                      else map (Fired i Hbu) cbs @ [Rendered i])"
proof (cases "isMounted (heap w i)")
  case m: True
  obtain st2 w2 where b: "execs i (template (heap w i)) w = (st2, w2)"
    by (cases "execs i (template (heap w i)) w")
  let ?w3 = "w2\<lparr>trace := trace w2 @ [Rendered i]\<rparr>"
  from n m b have s2: "st2 = Normal" by (cases st2) (simp_all add: effect_body_def)
  have "trace (snd (execs i (template (heap w i)) w)) = trace w" by simp
  then have t2: "trace w2 = trace w" unfolding b by simp
  have "isMounted (heap (snd (execs i (template (heap w i)) w)) i)" using m by simp
  then have m2: "isMounted (heap w2 i)" unfolding b by simp
  from n m b s2 m2 have n3: "fst (fire i Hu ?w3) = Normal"
    by (simp add: effect_body_def Let_def)
  from fire_trace [OF n3] t2 m b s2 m2
  have "trace (snd (effect_body i w)) = trace w @ Rendered i # map (Fired i Hu) (registered i Hu ?w3)"
    by (simp add: effect_body_def Let_def)
  with m show ?thesis by auto
next
  case m: False
  obtain st1 w1 where a: "fire i Hbu w = (st1, w1)" by (cases "fire i Hbu w")
  obtain st2 w2 where b: "execs i (template (heap w1 i)) w1 = (st2, w2)"
    by (cases "execs i (template (heap w1 i)) w1")
  from n m a have s1: "st1 = Normal" by (cases st1) (simp_all add: effect_body_def)
  from n m a b s1 have s2: "st2 = Normal" by (cases st2) (simp_all add: effect_body_def)
  have t1: "trace w1 = trace w @ map (Fired i Hbu) (registered i Hbu w)"
    using fire_trace [of i Hbu w] a s1 by simp
  have "trace (snd (execs i (template (heap w1 i)) w1)) = trace w1" by simp
  then have t2: "trace w2 = trace w1" unfolding b by simp
  have "\<not> isMounted (heap (snd (fire i Hbu w)) i)" using m by simp
  then have m1: "\<not> isMounted (heap w1 i)" unfolding a by simp
  then have "\<not> isMounted (heap (snd (execs i (template (heap w1 i)) w1)) i)" by simp
  then have m2: "\<not> isMounted (heap w2 i)" unfolding b by simp
  from a b s1 s2 m m2 t1 t2
  have "trace (snd (effect_body i w)) = trace w @ map (Fired i Hbu) (registered i Hbu w) @ [Rendered i]"
    by (simp add: effect_body_def Let_def)
  with m show ?thesis by auto
qed

lemma run_shape:
  assumes n: "fst (run i w) = Normal"
  shows "\<exists>cbs. trace (snd (run i w)) =
           trace w @ (if isMounted (heap w i) then Rendered i # map (Fired i Hu) cbs
                      else map (Fired i Hbu) cbs @ [Rendered i])"
proof -
  let ?w1 = "(cleanup i w)\<lparr>activeEffect := Some i\<rparr>"
  have n1: "fst (effect_body i ?w1) = Normal" using n by (simp add: run_unfold)
  from effect_body_shape [OF n1] show ?thesis by (simp add: run_unfold)
qed

lemma attributeChanged_single:
  "subs w i name = [i] \<Longrightarrow>
   attributeChangedCallback i name oldValue newValue w =
     run i (assign i name newValue w)"
  by (simp add: attributeChangedCallback_def reactive_set_def trigger_def split: prod.splits status.splits)


lemma constructor_other:
  assumes "j \<noteq> i" and "isMounted (heap w i)"
  shows "isMounted (heap (snd (constructor fac j w)) i)"
proof -
  let ?w1 = "w\<lparr>heap := (heap w)(j := blank), currentInstance := Some j\<rparr>"
  let ?w3 = "(snd (call_factory fac j ?w1))\<lparr>currentInstance := None\<rparr>"
  have m2: "isMounted (heap (snd (call_factory fac j ?w1)) i)" using assms by simp
  show ?thesis
  proof (cases "fst (call_factory fac j ?w1)")
    case Thrown
    from constructor_thrown [OF Thrown] m2 show ?thesis by simp
  next
    case Normal
    obtain st4 w4 where e: "fire j Hbm ?w3 = (st4, w4)" by (cases "fire j Hbm ?w3")
    have "isMounted (heap (snd (fire j Hbm ?w3)) i)" using m2 by simp
    then have m4: "isMounted (heap w4 i)" unfolding e by simp
    have "isMounted (heap (snd (run j w4)) i)" using run_keeps [of w4 j] m4 by (simp add: keeps_def)
    with constructor_normal [OF Normal] e m4 show ?thesis by (cases st4) simp_all
  qed
qed

lemma step_isMounted:
  assumes "\<And>fac. a \<noteq> New fac i" and m: "isMounted (heap w i)"
  shows "isMounted (heap (snd (step a w)) i)"
proof (cases a)
  case (New fac j)
  with assms(1) have "j \<noteq> i" by auto
  from constructor_other [OF this m] New show ?thesis by simp
next
  case (Connect j)
  with m show ?thesis by (simp add: connectedCallback_def)
next
  case (Disconnect j)
  with m show ?thesis by (simp add: disconnectedCallback_def)
next
  case (AttrChange j name ov nv)
  let ?w1 = "assign j name nv w"
  have "isMounted (heap ?w1 i)" using m by auto
  then have "isMounted (heap (snd (trigger j name ?w1)) i)"
    using trigger_keeps [of ?w1 j name] unfolding keeps_def by blast
  with AttrChange show ?thesis by (simp add: attributeChangedCallback_def reactive_set_def)
next
  case (TopLevel name cb)
  with m show ?thesis by (simp add: createLifecycleMethod_def split: option.splits)
qed

section \<open>The constructor: pointer, firing order, attribute changes\<close>

text \<open>
  C1. The constructor resets \<^verbatim>\<open>currentInstance\<close> in the statement after the factory call, so
  only when the call returns. With the factory that throws, the construction of object 0
  fails and the pointer still holds 0 afterwards; a registration made later, outside any
  construction, then lands on that object.
\<close>

theorem throwing_factory_leaves_pointer_set:
  "fst (constructor (Some failing_factory) 0 init) = Thrown \<and>
   currentInstance (snd (constructor (Some failing_factory) 0 init)) = Some 0 \<and>
   registered 0 Hum (snd (constructor (Some failing_factory) 0 init)) = [] \<and>
   registered 0 Hum
     (steps [New (Some failing_factory) 0, TopLevel Hum (1, [Get ''late''])] init) =
     [(1, [Get ''late''])]"
  unfolding registered_def by (simp add: eval_defs)

text \<open>
  C2. A construction that completes has fired, in this order, the beforeMount callbacks,
  the beforeUpdate callbacks and the first render, and nothing else; the instance is then
  mounted and no instance is current. A rerun caused by an attribute change of a mounted
  instance renders and then fires the updated callbacks, and nothing else. Whatever the
  state, a run of a mounted instance fires no beforeUpdate callback and a run of an
  instance not yet mounted fires no updated callback. An instance stays mounted through
  every later event of the page.
\<close>

theorem lifecycle_firing_order:
  "(fst (constructor fac i w) = Normal \<longrightarrow>
      new_events w (snd (constructor fac i w)) =
        map (Fired i Hbm) (registered i Hbm (snd (constructor fac i w))) @
        map (Fired i Hbu) (registered i Hbu (snd (constructor fac i w))) @ [Rendered i] \<and>
      isMounted (heap (snd (constructor fac i w)) i) \<and>
      currentInstance (snd (constructor fac i w)) = None) \<and>
   (isMounted (heap w i) \<and> currentInstance w = None \<and> subs w i name = [i] \<and>
    fst (attributeChangedCallback i name oldValue newValue w) = Normal \<longrightarrow>
      new_events w (snd (attributeChangedCallback i name oldValue newValue w)) =
        Rendered i # map (Fired i Hu) (registered i Hu w) \<and>
      isMounted (heap (snd (attributeChangedCallback i name oldValue newValue w)) i) \<and>
      currentInstance (snd (attributeChangedCallback i name oldValue newValue w)) = None) \<and>
   (fst (run i w) = Normal \<longrightarrow>
      (\<exists>cbs. new_events w (snd (run i w)) =
         (if isMounted (heap w i) then Rendered i # map (Fired i Hu) cbs
          else map (Fired i Hbu) cbs @ [Rendered i]))) \<and>
   (isMounted (heap w i) \<and> (\<forall>fac'. a \<noteq> New fac' i) \<longrightarrow> isMounted (heap (snd (step a w)) i))"
proof (intro conjI impI)
  assume n: "fst (constructor fac i w) = Normal"
  from constructor_trace(1) [OF n]
  show "new_events w (snd (constructor fac i w)) =
        map (Fired i Hbm) (registered i Hbm (snd (constructor fac i w))) @
        map (Fired i Hbu) (registered i Hbu (snd (constructor fac i w))) @ [Rendered i]"
    by (rule new_events_append)
  from constructor_trace(2) [OF n] show "isMounted (heap (snd (constructor fac i w)) i)" .
  have "fst (call_factory fac i (w\<lparr>heap := (heap w)(i := blank), currentInstance := Some i\<rparr>)) = Normal"
  proof (cases "fst (call_factory fac i (w\<lparr>heap := (heap w)(i := blank), currentInstance := Some i\<rparr>))")
    case Thrown
    from constructor_thrown [OF Thrown] n show ?thesis by simp
  qed simp
  then show "currentInstance (snd (constructor fac i w)) = None"
    by (simp add: constructor_pointer)
next
  assume a: "isMounted (heap w i) \<and> currentInstance w = None \<and> subs w i name = [i] \<and>
    fst (attributeChangedCallback i name oldValue newValue w) = Normal"
  let ?w1 = "assign i name newValue w"
  from a have eq: "attributeChangedCallback i name oldValue newValue w = run i ?w1"
    by (simp add: attributeChanged_single)
  have q: "currentInstance ?w1 = None" using a by simp
  have m: "isMounted (heap ?w1 i)" using a by simp
  have n: "fst (run i ?w1) = Normal" using a eq by simp
  have r: "registered i Hu ?w1 = registered i Hu w" by (simp add: registered_def)
  have "trace (snd (run i ?w1)) = trace w @ Rendered i # map (Fired i Hu) (registered i Hu w)"
    using run_later(1) [OF q m n] r by simp
  then show "new_events w (snd (attributeChangedCallback i name oldValue newValue w)) =
        Rendered i # map (Fired i Hu) (registered i Hu w)"
    unfolding eq by (rule new_events_append)
  from run_later(2) [OF q m n]
  show "isMounted (heap (snd (attributeChangedCallback i name oldValue newValue w)) i)"
    unfolding eq .
  from run_keeps [of ?w1 i] q
  show "currentInstance (snd (attributeChangedCallback i name oldValue newValue w)) = None"
    unfolding eq by (simp add: keeps_def)
next
  assume n: "fst (run i w) = Normal"
  from run_shape [OF n] obtain cbs where
    "trace (snd (run i w)) =
       trace w @ (if isMounted (heap w i) then Rendered i # map (Fired i Hu) cbs
                  else map (Fired i Hbu) cbs @ [Rendered i])" ..
  then have "new_events w (snd (run i w)) =
       (if isMounted (heap w i) then Rendered i # map (Fired i Hu) cbs
        else map (Fired i Hbu) cbs @ [Rendered i])"
    by (rule new_events_append)
  then show "\<exists>cbs. new_events w (snd (run i w)) =
         (if isMounted (heap w i) then Rendered i # map (Fired i Hu) cbs
          else map (Fired i Hbu) cbs @ [Rendered i])" ..
next
  assume "isMounted (heap w i) \<and> (\<forall>fac'. a \<noteq> New fac' i)"
  then show "isMounted (heap (snd (step a w)) i)"
    using step_isMounted [of a i w] by blast
qed

theorem lifecycle_firing_order_witness:
  "fst (constructor (Some counter_factory) 0 init) = Normal \<and>
   new_events init (snd (constructor (Some counter_factory) 0 init)) =
     [Fired 0 Hbm (0, [Get ''a'']), Fired 0 Hbu (0, [Get ''c'']), Rendered 0] \<and>
   isMounted (heap counter_page 0) \<and> currentInstance counter_page = None \<and>
   subs counter_page 0 ''count'' = [0] \<and>
   fst (attributeChangedCallback 0 ''count'' JNull (JStr ''1'') counter_page) = Normal \<and>
   new_events counter_page (snd (attributeChangedCallback 0 ''count'' JNull (JStr ''1'') counter_page)) =
     [Rendered 0, Fired 0 Hu (0, [Get ''d''])] \<and>
   fst (run 0 counter_page) = Normal \<and>
   (\<exists>cbs. new_events counter_page (snd (run 0 counter_page)) = Rendered 0 # map (Fired 0 Hu) cbs) \<and>
   isMounted (heap (snd (step (Connect 0) counter_page)) 0)"
proof -
  note f = counter_page_facts
  note t = lifecycle_firing_order [where fac = "Some counter_factory" and i = 0 and w = init]
  note u = lifecycle_firing_order [where i = 0 and w = counter_page and name = "''count''"
      and oldValue = JNull and newValue = "JStr ''1''" and a = "Connect 0"]
  have 1: "new_events init (snd (constructor (Some counter_factory) 0 init)) =
     [Fired 0 Hbm (0, [Get ''a'']), Fired 0 Hbu (0, [Get ''c'']), Rendered 0]"
    using t f(1) f(8,9) [unfolded counter_page_def] by simp
  have 2: "new_events counter_page (snd (attributeChangedCallback 0 ''count'' JNull (JStr ''1'') counter_page)) =
     [Rendered 0, Fired 0 Hu (0, [Get ''d''])]"
    using u f(2,4,5,7) counter_page_change(1) by simp
  have 3: "\<exists>cbs. new_events counter_page (snd (run 0 counter_page)) = Rendered 0 # map (Fired 0 Hu) cbs"
    using u f(4) counter_page_change(2) by simp
  have 4: "isMounted (heap (snd (step (Connect 0) counter_page)) 0)"
    using u f(4) by blast
  from 1 2 3 4 f(1,2,4,5) counter_page_change show ?thesis by blast
qed





section \<open>After the factory call; absent arrays\<close>



lemma late_factory_facts:
  "fst (call_factory (Some late_factory) 0
     (init\<lparr>heap := (heap init)(0 := blank), currentInstance := Some 0\<rparr>)) = Normal"
  "fst (constructor (Some late_factory) 0 init) = Normal"
  "registered 0 Hm (snd (constructor (Some late_factory) 0 init)) = []"
  "registered 0 Hu (snd (constructor (Some late_factory) 0 init)) = [(0, [Get ''d''])]"
  "registered 0 Hbm (snd (constructor (Some late_factory) 0 init)) = [(0, [Reg Hm [Get ''x'']])]"
  "currentInstance (snd (constructor (Some late_factory) 0 init)) = None"
  "trace (snd (constructor (Some late_factory) 0 init)) =
     [Fired 0 Hbm (0, [Reg Hm [Get ''x'']]), Rendered 0]"
  unfolding registered_def by (simp_all add: eval_defs late_factory_def)

lemma constructor_normal_factory:
  assumes "fst (constructor fac i w) = Normal"
  shows "fst (call_factory fac i (w\<lparr>heap := (heap w)(i := blank), currentInstance := Some i\<rparr>)) = Normal"
proof (cases "fst (call_factory fac i (w\<lparr>heap := (heap w)(i := blank), currentInstance := Some i\<rparr>))")
  case Thrown
  from constructor_thrown [OF Thrown] assms show ?thesis by simp
qed simp

lemma step_pointer:
  assumes q: "currentInstance w = None" and n: "fst (step a w) = Normal"
  shows "currentInstance (snd (step a w)) = None"
proof (cases a)
  case (New fac i)
  with n have "fst (constructor fac i w) = Normal" by simp
  from constructor_normal_factory [OF this] New show ?thesis by (simp add: constructor_pointer)
next
  case (Connect i)
  from keeps_quiet [OF fire_keeps q, of i Hm] Connect show ?thesis
    by (simp add: connectedCallback_def)
next
  case (Disconnect i)
  from keeps_quiet [OF fire_keeps q, of i Hum] Disconnect show ?thesis
    by (simp add: disconnectedCallback_def)
next
  case (AttrChange i name ov nv)
  let ?w1 = "assign i name nv w"
  have "currentInstance ?w1 = None" using q by simp
  from keeps_quiet [OF trigger_keeps this, of i name] AttrChange show ?thesis
    by (simp add: attributeChangedCallback_def reactive_set_def)
next
  case (TopLevel name cb)
  with q show ?thesis by simp
qed

text \<open>
  What holds in every state: when the factory returns normally the constructor clears
  \<^verbatim>\<open>currentInstance\<close> before it fires the beforeMount callbacks and before it creates the
  computation; the rest of the construction keeps it so and leaves the callback arrays of
  every instance as the factory left them. And from a state with no current instance, a
  registration made by user code does nothing, and neither a firing nor a run of the
  computation changes any callback array.
\<close>

lemma no_registration_while_pointer_empty:
  "(fst (call_factory fac i (w\<lparr>heap := (heap w)(i := blank), currentInstance := Some i\<rparr>)) = Normal \<longrightarrow>
      constructor fac i w =
        (case fire i Hbm
           ((snd (call_factory fac i (w\<lparr>heap := (heap w)(i := blank), currentInstance := Some i\<rparr>)))
              \<lparr>currentInstance := None\<rparr>) of
           (Thrown, w4) \<Rightarrow> (Thrown, w4)
         | (Normal, w4) \<Rightarrow> run i w4) \<and>
      currentInstance (snd (constructor fac i w)) = None \<and>
      (\<forall>j. hooks (heap (snd (constructor fac i w)) j) =
           hooks (heap (snd (call_factory fac i
             (w\<lparr>heap := (heap w)(i := blank), currentInstance := Some i\<rparr>))) j))) \<and>
   (currentInstance w = None \<longrightarrow>
      exec self (Reg name body) w = (Normal, w) \<and>
      currentInstance (snd (fire i name w)) = None \<and>
      (\<forall>j. hooks (heap (snd (fire i name w)) j) = hooks (heap w j)) \<and>
      currentInstance (snd (run i w)) = None \<and>
      (\<forall>j. hooks (heap (snd (run i w)) j) = hooks (heap w j))) \<and>
   (currentInstance w = None \<and> fst (step a w) = Normal \<longrightarrow>
      currentInstance (snd (step a w)) = None)"
proof (intro conjI impI allI)
  assume n: "fst (call_factory fac i (w\<lparr>heap := (heap w)(i := blank), currentInstance := Some i\<rparr>)) = Normal"
  from constructor_normal [OF n]
  show "constructor fac i w =
        (case fire i Hbm
           ((snd (call_factory fac i (w\<lparr>heap := (heap w)(i := blank), currentInstance := Some i\<rparr>)))
              \<lparr>currentInstance := None\<rparr>) of
           (Thrown, w4) \<Rightarrow> (Thrown, w4)
         | (Normal, w4) \<Rightarrow> run i w4)" .
  from n show "currentInstance (snd (constructor fac i w)) = None"
    by (simp add: constructor_pointer)
  fix j
  from constructor_hooks [OF n]
  show "hooks (heap (snd (constructor fac i w)) j) =
           hooks (heap (snd (call_factory fac i
             (w\<lparr>heap := (heap w)(i := blank), currentInstance := Some i\<rparr>))) j)" .
next
  assume q: "currentInstance w = None"
  show "exec self (Reg name body) w = (Normal, w)" by (simp add: register_quiet [OF q])
  from keeps_quiet [OF fire_keeps q]
  show "currentInstance (snd (fire i name w)) = None" by blast
  from keeps_quiet [OF run_keeps q]
  show "currentInstance (snd (run i w)) = None" by blast
  fix j
  from keeps_quiet [OF fire_keeps q]
  show "hooks (heap (snd (fire i name w)) j) = hooks (heap w j)" by blast
  from keeps_quiet [OF run_keeps q]
  show "hooks (heap (snd (run i w)) j) = hooks (heap w j)" by blast
next
  assume "currentInstance w = None \<and> fst (step a w) = Normal"
  then show "currentInstance (snd (step a w)) = None" by (simp add: step_pointer)
qed

lemma stale_page_facts:
  "fst (step (New (Some late_factory) 0) init) = Normal"
  "fst (step (New (Some failing_factory) 1) (snd (step (New (Some late_factory) 0) init))) = Thrown"
  "currentInstance (snd (step (New (Some late_factory) 0) init)) = None"
  "currentInstance stale_page = Some 1"
  "isMounted (heap stale_page 0)"
  "registered 1 Hu stale_page = []"
  "registered 0 Hu stale_page = [(0, [Get ''d''])]"
  "fst (attributeChangedCallback 0 ''count'' JNull (JStr ''1'') stale_page) = Normal"
  "registered 1 Hu (snd (attributeChangedCallback 0 ''count'' JNull (JStr ''1'') stale_page)) =
     [(0, [Get ''y''])]"
  "new_events stale_page (snd (attributeChangedCallback 0 ''count'' JNull (JStr ''1'') stale_page)) =
     [Rendered 0, Fired 0 Hu (0, [Get ''d''])]"
  unfolding stale_page_def registered_def new_events_def
  by (simp_all add: eval_defs late_factory_def)

text \<open>
  C9. The construction-time part holds (see above), but a later run of the render
  computation can find the pointer set. Element 0 is built, its factory returning
  normally; its render function calls \<^verbatim>\<open>onUpdated\<close>. Then the factory of element 1 throws,
  which leaves \<^verbatim>\<open>currentInstance\<close> pointing at element 1. The next attribute change of
  element 0 reruns its render function, and the \<^verbatim>\<open>onUpdated\<close> call made there is not a
  no-op: the callback is pushed onto the array of element 1.
\<close>

theorem rerun_registers_on_failed_instance:
  "fst (step (New (Some late_factory) 0) init) = Normal \<and>
   currentInstance (snd (step (New (Some late_factory) 0) init)) = None \<and>
   stale_page = steps [New (Some late_factory) 0, New (Some failing_factory) 1] init \<and>
   currentInstance stale_page = Some 1 \<and>
   registered 1 Hu stale_page = [] \<and>
   fst (attributeChangedCallback 0 ''count'' JNull (JStr ''1'') stale_page) = Normal \<and>
   new_events stale_page (snd (attributeChangedCallback 0 ''count'' JNull (JStr ''1'') stale_page)) =
     [Rendered 0, Fired 0 Hu (0, [Get ''d''])] \<and>
   registered 1 Hu (snd (attributeChangedCallback 0 ''count'' JNull (JStr ''1'') stale_page)) =
     [(0, [Get ''y''])]"
proof -
  note f = stale_page_facts
  have d: "stale_page = steps [New (Some late_factory) 0, New (Some failing_factory) 1] init"
    by (simp only: stale_page_def)
  from f(1,3,4,6,8,9,10) d show ?thesis by blast
qed



section \<open>Dependencies of the computation\<close>

lemma tracks_same:
  "activeEffect w' = activeEffect w \<Longrightarrow> readlog w' = readlog w \<Longrightarrow> subs w' = subs w \<Longrightarrow>
   tracks c w w'"
  by (simp add: tracks_def)

lemma tracks_trans:
  assumes "tracks c w w1" and "tracks c w1 w2"
  shows "tracks c w w2"
  unfolding tracks_def
proof (intro impI conjI)
  assume a: "activeEffect w = Some c"
  from assms(1) a obtain d1 where a1: "activeEffect w1 = Some c"
    and r1: "readlog w1 = readlog w @ d1"
    and s1: "\<And>obj key. subs w1 obj key =
              subs w obj key @
                (if c \<in> set (subs w obj key) \<or> (Some c, obj, key) \<notin> set d1 then [] else [c])"
    unfolding tracks_def by blast
  from assms(2) a1 obtain d2 where a2: "activeEffect w2 = Some c"
    and r2: "readlog w2 = readlog w1 @ d2"
    and s2: "\<And>obj key. subs w2 obj key =
              subs w1 obj key @
                (if c \<in> set (subs w1 obj key) \<or> (Some c, obj, key) \<notin> set d2 then [] else [c])"
    unfolding tracks_def by blast
  show "activeEffect w2 = Some c" by (rule a2)
  have r: "readlog w2 = readlog w @ (d1 @ d2)" using r1 r2 by simp
  have s: "\<And>obj key. subs w2 obj key =
              subs w obj key @
                (if c \<in> set (subs w obj key) \<or> (Some c, obj, key) \<notin> set (d1 @ d2) then [] else [c])"
  proof -
    fix obj key
    show "subs w2 obj key =
              subs w obj key @
                (if c \<in> set (subs w obj key) \<or> (Some c, obj, key) \<notin> set (d1 @ d2) then [] else [c])"
      using s1 [of obj key] s2 [of obj key] by (auto split: if_splits)
  qed
  from r s show "\<exists>d. readlog w2 = readlog w @ d \<and>
           (\<forall>obj key. subs w2 obj key =
              subs w obj key @
                (if c \<in> set (subs w obj key) \<or> (Some c, obj, key) \<notin> set d then [] else [c]))"
    by blast
qed

lemma tracks_get: "tracks c w (snd (reactive_get obj key w))"
  unfolding tracks_def
proof (intro impI conjI)
  assume a: "activeEffect w = Some c"
  let ?w' = "snd (reactive_get obj key w)"
  show "activeEffect ?w' = Some c" using a by (simp add: reactive_get_def track_def)
  have r: "readlog ?w' = readlog w @ [(Some c, obj, key)]"
    using a by (simp add: reactive_get_def track_def)
  have s: "\<And>obj' key'. subs ?w' obj' key' =
              subs w obj' key' @
                (if c \<in> set (subs w obj' key') \<or> (Some c, obj', key') \<notin> set [(Some c, obj, key)]
                 then [] else [c])"
    using a by (simp add: reactive_get_def track_def)
  from r s show "\<exists>d. readlog ?w' = readlog w @ d \<and>
           (\<forall>obj' key'. subs ?w' obj' key' =
              subs w obj' key' @
                (if c \<in> set (subs w obj' key') \<or> (Some c, obj', key') \<notin> set d then [] else [c]))"
    by blast
qed

lemma rel_body_tracks: "rel_body (tracks c)"
  unfolding rel_body_def rel_user_def
proof (intro conjI allI impI)
  fix w show "tracks c w w" by (simp add: tracks_same)
next
  fix a b d assume "tracks c a b" and "tracks c b d"
  then show "tracks c a d" by (rule tracks_trans)
next
  fix name cb w
  show "tracks c w (snd (createLifecycleMethod name cb w))"
    by (rule tracks_same) (simp_all add: createLifecycleMethod_def split: option.splits)
next
  fix obj key w
  show "tracks c w (snd (reactive_get obj key w))" by (rule tracks_get)
next
  fix w e
  show "tracks c w (w\<lparr>trace := trace w @ [e]\<rparr>)" by (simp add: tracks_same)
next
  fix w i
  show "tracks c w (w\<lparr>heap := (heap w)(i := (heap w i)\<lparr>isMounted := True\<rparr>)\<rparr>)"
    by (simp add: tracks_same)
qed

text \<open>The dependents after a run: the computation is listed for exactly the keys it read.\<close>

lemma run_tracks:
  "\<exists>d. readlog (snd (run c w)) = readlog w @ d \<and>
       (\<forall>obj key. subs (snd (run c w)) obj key =
          removeAll c (subs w obj key) @ (if (Some c, obj, key) \<in> set d then [c] else []))"
proof -
  let ?w1 = "(cleanup c w)\<lparr>activeEffect := Some c\<rparr>"
  let ?w2 = "snd (effect_body c ?w1)"
  have "tracks c ?w1 ?w2" using rel_body_effect_body [OF rel_body_tracks] .
  then obtain d where r: "readlog ?w2 = readlog ?w1 @ d"
    and s: "\<And>obj key. subs ?w2 obj key =
              subs ?w1 obj key @
                (if c \<in> set (subs ?w1 obj key) \<or> (Some c, obj, key) \<notin> set d then [] else [c])"
    unfolding tracks_def by auto
  have r': "readlog (snd (run c w)) = readlog w @ d" using r by (simp add: run_unfold)
  have s': "\<And>obj key. subs (snd (run c w)) obj key =
          removeAll c (subs w obj key) @ (if (Some c, obj, key) \<in> set d then [c] else [])"
  proof -
    fix obj key
    show "subs (snd (run c w)) obj key =
          removeAll c (subs w obj key) @ (if (Some c, obj, key) \<in> set d then [c] else [])"
      using s [of obj key] by (simp add: run_unfold)
  qed
  from r' s' show ?thesis by blast
qed

lemma new_reads_append: "readlog w' = readlog w @ d \<Longrightarrow> new_reads w w' = d"
  by (simp add: new_reads_def)

lemma run_subs:
  "subs (snd (run c w)) obj key =
     removeAll c (subs w obj key) @
       (if (Some c, obj, key) \<in> set (new_reads w (snd (run c w))) then [c] else [])"
proof -
  from run_tracks [of c w] obtain d where r: "readlog (snd (run c w)) = readlog w @ d"
    and s: "\<And>obj key. subs (snd (run c w)) obj key =
          removeAll c (subs w obj key) @ (if (Some c, obj, key) \<in> set d then [c] else [])"
    by blast
  from new_reads_append [OF r] s [of obj key] show ?thesis by simp
qed

lemma count_list_Fired [simp]: "count_list (map (Fired i name) cbs) (Rendered c) = 0"
  by (induction cbs) simp_all

lemma run_count:
  assumes n: "fst (run i w) = Normal"
  shows "\<exists>es. trace (snd (run i w)) = trace w @ es \<and>
              count_list es (Rendered c) = (if c = i then 1 else 0)"
proof -
  from run_shape [OF n] obtain cbs where t:
    "trace (snd (run i w)) =
       trace w @ (if isMounted (heap w i) then Rendered i # map (Fired i Hu) cbs
                  else map (Fired i Hbu) cbs @ [Rendered i])" ..
  let ?es = "if isMounted (heap w i) then Rendered i # map (Fired i Hu) cbs
                  else map (Fired i Hbu) cbs @ [Rendered i]"
  have "count_list ?es (Rendered c) = (if c = i then 1 else 0)" by simp
  with t show ?thesis by blast
qed

lemma run_all_count:
  "fst (run_all cs w) = Normal \<Longrightarrow>
   \<exists>es. trace (snd (run_all cs w)) = trace w @ es \<and> count_list es (Rendered c) = count_list cs c"
proof (induction cs arbitrary: w)
  case Nil
  then show ?case by simp
next
  case (Cons i cs)
  obtain st w1 where e: "run i w = (st, w1)" by (cases "run i w")
  from Cons.prems e have st: "st = Normal" by (cases st) simp_all
  from run_count [of i w c] e st obtain es1 where
    t1: "trace w1 = trace w @ es1" and c1: "count_list es1 (Rendered c) = (if c = i then 1 else 0)"
    by auto
  from Cons.prems e st have "fst (run_all cs w1) = Normal" by simp
  from Cons.IH [OF this] obtain es2 where
    t2: "trace (snd (run_all cs w1)) = trace w1 @ es2"
    and c2: "count_list es2 (Rendered c) = count_list cs c" by blast
  have "trace (snd (run_all (i # cs) w)) = trace w @ (es1 @ es2)"
    using e st t1 t2 by simp
  moreover have "count_list (es1 @ es2) (Rendered c) = count_list (i # cs) c"
    using c1 c2 by simp
  ultimately show ?case by blast
qed

lemma attributeChanged_reruns:
  assumes "fst (attributeChangedCallback obj key oldValue newValue w) = Normal"
  shows "reruns c w (snd (attributeChangedCallback obj key oldValue newValue w)) =
         count_list (subs w obj key) c"
proof -
  let ?w1 = "assign obj key newValue w"
  have eq: "attributeChangedCallback obj key oldValue newValue w = run_all (subs w obj key) ?w1"
    by (simp add: attributeChangedCallback_def reactive_set_def trigger_def)
  from assms eq have "fst (run_all (subs w obj key) ?w1) = Normal" by simp
  from run_all_count [OF this, of c] obtain es where
    t: "trace (snd (run_all (subs w obj key) ?w1)) = trace ?w1 @ es"
    and k: "count_list es (Rendered c) = count_list (subs w obj key) c" by blast
  from t have "trace (snd (attributeChangedCallback obj key oldValue newValue w)) = trace w @ es"
    unfolding eq by simp
  from new_events_append [OF this] k show ?thesis by (simp add: reruns_def)
qed

lemma count_list_removeAll [simp]: "count_list (removeAll c xs) c = 0"
  by (induction xs) simp_all

section \<open>Which writes rerun which computation\<close>
















lemmas cond_defs = cond_on_def cond_off_def cond_factory_def

lemma cond_facts:
  "subs cond_on 0 ''flag'' = [0]"
  "subs cond_on 0 ''a'' = [0]"
  "subs cond_on 0 ''b'' = []"
  "new_reads cond_on cond_off = [(Some 0, 0, ''flag''), (Some 0, 0, ''b'')]"
  "fst (attributeChangedCallback 0 ''a'' JNull (JStr ''1'') cond_off) = Normal"
  "fst (attributeChangedCallback 0 ''b'' JNull (JStr ''2'') cond_off) = Normal"
  "fst (attributeChangedCallback 0 ''flag'' (JStr ''on'') (JStr ''off'') cond_on) = Normal"
  unfolding cond_defs new_reads_def by (simp_all add: eval_defs)




text \<open>
  C4. After a run the computation is a dependent of exactly the keys it read in that run:
  whatever it depended on before is dropped first. So when a write to the flag reruns the
  computation, a key the rerun did not read, even one the computation depended on until
  then, no longer reruns it when written, and a key the rerun did read reruns it exactly
  once.
\<close>

theorem dependencies_rebuilt_on_rerun:
  "subs (snd (run c w)) obj key =
     removeAll c (subs w obj key) @
       (if (Some c, obj, key) \<in> set (new_reads w (snd (run c w))) then [c] else []) \<and>
   (subs w c flag = [c] \<longrightarrow>
      ((Some c, obj, a) \<notin> set (new_reads w (snd (attributeChangedCallback c flag oldValue newValue w))) \<and>
       fst (attributeChangedCallback obj a oldA newA
              (snd (attributeChangedCallback c flag oldValue newValue w))) = Normal \<longrightarrow>
         reruns c (snd (attributeChangedCallback c flag oldValue newValue w))
           (snd (attributeChangedCallback obj a oldA newA
                   (snd (attributeChangedCallback c flag oldValue newValue w)))) = 0) \<and>
      ((Some c, obj, b) \<in> set (new_reads w (snd (attributeChangedCallback c flag oldValue newValue w))) \<and>
       fst (attributeChangedCallback obj b oldB newB
              (snd (attributeChangedCallback c flag oldValue newValue w))) = Normal \<longrightarrow>
         reruns c (snd (attributeChangedCallback c flag oldValue newValue w))
           (snd (attributeChangedCallback obj b oldB newB
                   (snd (attributeChangedCallback c flag oldValue newValue w)))) = 1))"
proof (intro conjI impI)
  show "subs (snd (run c w)) obj key =
     removeAll c (subs w obj key) @
       (if (Some c, obj, key) \<in> set (new_reads w (snd (run c w))) then [c] else [])"
    by (rule run_subs)
next
  let ?w0 = "assign c flag newValue w"
  let ?w1 = "snd (attributeChangedCallback c flag oldValue newValue w)"
  assume s: "subs w c flag = [c]"
  then have eq: "?w1 = snd (run c ?w0)" by (simp add: attributeChanged_single)
  have nr: "new_reads w ?w1 = new_reads ?w0 (snd (run c ?w0))"
    unfolding eq by (simp add: new_reads_def)
  have sb: "\<And>k. subs ?w1 obj k =
      removeAll c (subs w obj k) @ (if (Some c, obj, k) \<in> set (new_reads w ?w1) then [c] else [])"
    unfolding nr unfolding eq using run_subs [of c ?w0 obj] by simp
  {
    assume h: "(Some c, obj, a) \<notin> set (new_reads w ?w1) \<and>
       fst (attributeChangedCallback obj a oldA newA ?w1) = Normal"
    then have "reruns c ?w1 (snd (attributeChangedCallback obj a oldA newA ?w1)) =
        count_list (subs ?w1 obj a) c"
      by (simp add: attributeChanged_reruns)
    also have "\<dots> = 0" using h by (simp add: sb [of a])
    finally show "reruns c ?w1 (snd (attributeChangedCallback obj a oldA newA ?w1)) = 0" .
  }
  {
    assume h: "(Some c, obj, b) \<in> set (new_reads w ?w1) \<and>
       fst (attributeChangedCallback obj b oldB newB ?w1) = Normal"
    then have "reruns c ?w1 (snd (attributeChangedCallback obj b oldB newB ?w1)) =
        count_list (subs ?w1 obj b) c"
      by (simp add: attributeChanged_reruns)
    also have "\<dots> = 1" using h by (simp add: sb [of b])
    finally show "reruns c ?w1 (snd (attributeChangedCallback obj b oldB newB ?w1)) = 1" .
  }
qed

theorem dependencies_rebuilt_on_rerun_witness:
  "subs cond_on 0 ''flag'' = [0] \<and> subs cond_on 0 ''a'' = [0] \<and> subs cond_on 0 ''b'' = [] \<and>
   cond_off = snd (attributeChangedCallback 0 ''flag'' (JStr ''on'') (JStr ''off'') cond_on) \<and>
   (Some 0, 0, ''a'') \<notin> set (new_reads cond_on cond_off) \<and>
   fst (attributeChangedCallback 0 ''a'' JNull (JStr ''1'') cond_off) = Normal \<and>
   reruns 0 cond_off (snd (attributeChangedCallback 0 ''a'' JNull (JStr ''1'') cond_off)) = 0 \<and>
   (Some 0, 0, ''b'') \<in> set (new_reads cond_on cond_off) \<and>
   fst (attributeChangedCallback 0 ''b'' JNull (JStr ''2'') cond_off) = Normal \<and>
   reruns 0 cond_off (snd (attributeChangedCallback 0 ''b'' JNull (JStr ''2'') cond_off)) = 1"
proof -
  note f = cond_facts
  note t = dependencies_rebuilt_on_rerun [where c = 0 and w = cond_on and flag = "''flag''"
      and oldValue = "JStr ''on''" and newValue = "JStr ''off''" and obj = 0
      and a = "''a''" and oldA = JNull and newA = "JStr ''1''"
      and b = "''b''" and oldB = JNull and newB = "JStr ''2''", folded cond_off_def]
  have 1: "(Some 0, 0, ''a'') \<notin> set (new_reads cond_on cond_off)" unfolding f(4) by simp
  have 2: "(Some 0, 0, ''b'') \<in> set (new_reads cond_on cond_off)" unfolding f(4) by simp
  from t f(1) 1 f(5)
  have 3: "reruns 0 cond_off (snd (attributeChangedCallback 0 ''a'' JNull (JStr ''1'') cond_off)) = 0"
    by blast
  from t f(1) 2 f(6)
  have 4: "reruns 0 cond_off (snd (attributeChangedCallback 0 ''b'' JNull (JStr ''2'') cond_off)) = 1"
    by blast
  from 1 2 3 4 f(1,2,3,5,6) cond_off_def show ?thesis by blast
qed

section \<open>The exported registration functions and the firing sites\<close>

lemma exported_registered:
  assumes c: "currentInstance w = Some c"
  shows "fst (onBeforeMount cb w) = Normal"
    and "registered c' name' (snd (onBeforeMount cb w)) =
      (if c' = c \<and> name' = Hbm then registered c Hbm w @ [cb] else registered c' name' w)"
    and "fst (onMounted cb w) = Normal"
    and "registered c' name' (snd (onMounted cb w)) =
      (if c' = c \<and> name' = Hm then registered c Hm w @ [cb] else registered c' name' w)"
    and "fst (onBeforeUpdate cb w) = Normal"
    and "registered c' name' (snd (onBeforeUpdate cb w)) =
      (if c' = c \<and> name' = Hbu then registered c Hbu w @ [cb] else registered c' name' w)"
    and "fst (onUpdated cb w) = Normal"
    and "registered c' name' (snd (onUpdated cb w)) =
      (if c' = c \<and> name' = Hu then registered c Hu w @ [cb] else registered c' name' w)"
    and "fst (onUnmounted cb w) = Normal"
    and "registered c' name' (snd (onUnmounted cb w)) =
      (if c' = c \<and> name' = Hum then registered c Hum w @ [cb] else registered c' name' w)"
  unfolding onBeforeMount_def onMounted_def onBeforeUpdate_def onUpdated_def onUnmounted_def
  using register_registered [OF c] by (simp_all add: register_current [OF c])

lemma execs_only_regs:
  "only_regs ss \<Longrightarrow> currentInstance w = Some c \<Longrightarrow>
   fst (execs self ss w) = Normal \<and>
   registered c' name' (snd (execs self ss w)) =
     (if c' = c then registered c name' w @ calls_for name' self ss else registered c' name' w)"
proof (induction ss arbitrary: w)
  case Nil
  then show ?case by simp
next
  case (Cons s ss)
  from Cons.prems(1) obtain name body where s: "s = Reg name body" and r: "only_regs ss"
    by (cases s) simp_all
  obtain w1 where cl: "createLifecycleMethod name (self, body) w = (Normal, w1)"
    using register_current [OF Cons.prems(2)] by blast
  have c1: "currentInstance w1 = Some c"
    using register_currentInstance [of name "(self, body)" w] Cons.prems(2) unfolding cl by simp
  have r1: "\<And>d n. registered d n w1 =
      (if d = c \<and> n = name then registered c name w @ [(self, body)] else registered d n w)"
    using register_registered [OF Cons.prems(2), where name = name and cb = "(self, body)"]
    unfolding cl by simp
  have e: "execs self (s # ss) w = execs self ss w1" using s cl by simp
  note ih = Cons.IH [OF r c1]
  show ?case
  proof (cases "c' = c")
    case True
    with ih r1 [of c name'] s show ?thesis unfolding e by simp
  next
    case False
    with ih r1 [of c' name'] s show ?thesis unfolding e by simp
  qed
qed

lemma constructor_only_regs:
  assumes r: "only_regs (setup_code f)"
  shows "registered i name (snd (constructor (Some f) i w)) = calls_for name i (setup_code f)"
proof -
  let ?w1 = "w\<lparr>heap := (heap w)(i := blank), currentInstance := Some i\<rparr>"
  let ?w2 = "snd (execs i (setup_code f) ?w1)"
  have c1: "currentInstance ?w1 = Some i" by simp
  have r0: "registered i name ?w1 = []" by (simp add: registered_def blank_def)
  from execs_only_regs [OF r c1, where self = i and c' = i and name' = name] r0
  have n2: "fst (execs i (setup_code f) ?w1) = Normal"
    and r2: "registered i name ?w2 = calls_for name i (setup_code f)" by simp_all
  have n: "fst (call_factory (Some f) i ?w1) = Normal"
    using n2 by (cases "execs i (setup_code f) ?w1") (simp add: call_factory_def)
  have h: "hooks (heap (snd (call_factory (Some f) i ?w1)) i) = hooks (heap ?w2 i)"
    using n2 by (simp add: call_factory_snd)
  from constructor_hooks [OF n, of i] h
  have "registered i name (snd (constructor (Some f) i w)) = registered i name ?w2"
    by (simp add: registered_def)
  with r2 show ?thesis by simp
qed

lemma mounted_page_facts:
  "only_regs (setup_code mounted_factory)"
  "calls_for Hm 0 (setup_code mounted_factory) = [(0, [Get ''a'']), (0, [Get ''b''])]"
  "calls_for Hum 0 (setup_code mounted_factory) = [(0, [Get ''c''])]"
  "fst (constructor (Some mounted_factory) 0 init) = Normal"
  "registered 0 Hbm mounted_page = []"
  "registered 0 Hbu mounted_page = []"
  "fst (connectedCallback 0 mounted_page) = Normal"
  "fst (disconnectedCallback 0 mounted_page) = Normal"
  "registered 0 Hm (mounted_page\<lparr>currentInstance := Some 0\<rparr>) = [(0, [Get ''a'']), (0, [Get ''b''])]"
  unfolding mounted_page_def registered_def
  by (simp_all add: eval_defs mounted_factory_def)

text \<open>
  C7. While instance \<open>c\<close> is current, each of the five exported registration functions
  returns normally and appends the callback at the end of the sequence of \<open>c\<close> for its
  own point, leaving every other sequence alone; user code that makes any number of
  registration calls appends, for every point, the callbacks given for that point in call
  order; so after a construction whose factory only registers, the sequence of the new
  instance for a point holds the callbacks the factory gave for it, in call order. Every
  firing site invokes the sequence of its point in that order: the constructor the
  beforeMount and then the beforeUpdate callbacks before the first render, a rerun the
  updated callbacks after the render, the connected transition the mounted callbacks and
  the disconnected transition the unmounted callbacks; when a callback throws, the ones
  invoked are those up to it, in order.
\<close>

theorem registration_appends_in_order:
  "(currentInstance w = Some c \<longrightarrow>
      fst (onBeforeMount cb w) = Normal \<and>
      registered c' name' (snd (onBeforeMount cb w)) =
        (if c' = c \<and> name' = Hbm then registered c Hbm w @ [cb] else registered c' name' w) \<and>
      fst (onMounted cb w) = Normal \<and>
      registered c' name' (snd (onMounted cb w)) =
        (if c' = c \<and> name' = Hm then registered c Hm w @ [cb] else registered c' name' w) \<and>
      fst (onBeforeUpdate cb w) = Normal \<and>
      registered c' name' (snd (onBeforeUpdate cb w)) =
        (if c' = c \<and> name' = Hbu then registered c Hbu w @ [cb] else registered c' name' w) \<and>
      fst (onUpdated cb w) = Normal \<and>
      registered c' name' (snd (onUpdated cb w)) =
        (if c' = c \<and> name' = Hu then registered c Hu w @ [cb] else registered c' name' w) \<and>
      fst (onUnmounted cb w) = Normal \<and>
      registered c' name' (snd (onUnmounted cb w)) =
        (if c' = c \<and> name' = Hum then registered c Hum w @ [cb] else registered c' name' w) \<and>
      (only_regs ss \<longrightarrow>
         fst (execs self ss w) = Normal \<and>
         registered c name (snd (execs self ss w)) = registered c name w @ calls_for name self ss)) \<and>
   (only_regs (setup_code f) \<longrightarrow>
      registered i name (snd (constructor (Some f) i w)) = calls_for name i (setup_code f)) \<and>
   (fst (constructor fac i w) = Normal \<longrightarrow>
      new_events w (snd (constructor fac i w)) =
        map (Fired i Hbm) (registered i Hbm (snd (constructor fac i w))) @
        map (Fired i Hbu) (registered i Hbu (snd (constructor fac i w))) @ [Rendered i]) \<and>
   (isMounted (heap w i) \<and> currentInstance w = None \<and> subs w i key = [i] \<and>
    fst (attributeChangedCallback i key oldValue newValue w) = Normal \<longrightarrow>
      new_events w (snd (attributeChangedCallback i key oldValue newValue w)) =
        Rendered i # map (Fired i Hu) (registered i Hu w)) \<and>
   (fst (connectedCallback i w) = Normal \<longrightarrow>
      new_events w (snd (connectedCallback i w)) = map (Fired i Hm) (registered i Hm w)) \<and>
   (fst (disconnectedCallback i w) = Normal \<longrightarrow>
      new_events w (snd (disconnectedCallback i w)) = map (Fired i Hum) (registered i Hum w)) \<and>
   (\<exists>n. new_events w (snd (connectedCallback i w)) =
      map (Fired i Hm) (take n (registered i Hm w))) \<and>
   (\<exists>n. new_events w (snd (disconnectedCallback i w)) =
      map (Fired i Hum) (take n (registered i Hum w)))"
proof (intro conjI impI)
  assume c: "currentInstance w = Some c"
  note e = exported_registered [OF c]
  show "fst (onBeforeMount cb w) = Normal" by (rule e(1))
  show "registered c' name' (snd (onBeforeMount cb w)) =
        (if c' = c \<and> name' = Hbm then registered c Hbm w @ [cb] else registered c' name' w)"
    by (rule e(2))
  show "fst (onMounted cb w) = Normal" by (rule e(3))
  show "registered c' name' (snd (onMounted cb w)) =
        (if c' = c \<and> name' = Hm then registered c Hm w @ [cb] else registered c' name' w)"
    by (rule e(4))
  show "fst (onBeforeUpdate cb w) = Normal" by (rule e(5))
  show "registered c' name' (snd (onBeforeUpdate cb w)) =
        (if c' = c \<and> name' = Hbu then registered c Hbu w @ [cb] else registered c' name' w)"
    by (rule e(6))
  show "fst (onUpdated cb w) = Normal" by (rule e(7))
  show "registered c' name' (snd (onUpdated cb w)) =
        (if c' = c \<and> name' = Hu then registered c Hu w @ [cb] else registered c' name' w)"
    by (rule e(8))
  show "fst (onUnmounted cb w) = Normal" by (rule e(9))
  show "registered c' name' (snd (onUnmounted cb w)) =
        (if c' = c \<and> name' = Hum then registered c Hum w @ [cb] else registered c' name' w)"
    by (rule e(10))
  {
    assume r: "only_regs ss"
    from execs_only_regs [OF r c, where self = self and c' = c and name' = name]
    show "fst (execs self ss w) = Normal"
      and "registered c name (snd (execs self ss w)) = registered c name w @ calls_for name self ss"
      by simp_all
  }
next
  assume "only_regs (setup_code f)"
  then show "registered i name (snd (constructor (Some f) i w)) = calls_for name i (setup_code f)"
    by (rule constructor_only_regs)
next
  assume n: "fst (constructor fac i w) = Normal"
  from constructor_trace(1) [OF n]
  show "new_events w (snd (constructor fac i w)) =
        map (Fired i Hbm) (registered i Hbm (snd (constructor fac i w))) @
        map (Fired i Hbu) (registered i Hbu (snd (constructor fac i w))) @ [Rendered i]"
    by (rule new_events_append)
next
  assume a: "isMounted (heap w i) \<and> currentInstance w = None \<and> subs w i key = [i] \<and>
    fst (attributeChangedCallback i key oldValue newValue w) = Normal"
  let ?w1 = "assign i key newValue w"
  from a have eq: "attributeChangedCallback i key oldValue newValue w = run i ?w1"
    by (simp add: attributeChanged_single)
  have q: "currentInstance ?w1 = None" using a by simp
  have m: "isMounted (heap ?w1 i)" using a by simp
  have n: "fst (run i ?w1) = Normal" using a eq by simp
  have r: "registered i Hu ?w1 = registered i Hu w" by (simp add: registered_def)
  have "trace (snd (run i ?w1)) = trace w @ Rendered i # map (Fired i Hu) (registered i Hu w)"
    using run_later(1) [OF q m n] r by simp
  then show "new_events w (snd (attributeChangedCallback i key oldValue newValue w)) =
        Rendered i # map (Fired i Hu) (registered i Hu w)"
    unfolding eq by (rule new_events_append)
next
  assume "fst (connectedCallback i w) = Normal"
  then have "fst (fire i Hm w) = Normal" by (simp add: connectedCallback_def)
  from fire_trace [OF this]
  show "new_events w (snd (connectedCallback i w)) = map (Fired i Hm) (registered i Hm w)"
    unfolding connectedCallback_def by (rule new_events_append)
next
  assume "fst (disconnectedCallback i w) = Normal"
  then have "fst (fire i Hum w) = Normal" by (simp add: disconnectedCallback_def)
  from fire_trace [OF this]
  show "new_events w (snd (disconnectedCallback i w)) = map (Fired i Hum) (registered i Hum w)"
    unfolding disconnectedCallback_def by (rule new_events_append)
next
  from forEach_trace_prefix [of i Hm "registered i Hm w" w] obtain n where
    "trace (snd (connectedCallback i w)) = trace w @ map (Fired i Hm) (take n (registered i Hm w))"
    unfolding connectedCallback_def fire_registered ..
  then have "new_events w (snd (connectedCallback i w)) =
      map (Fired i Hm) (take n (registered i Hm w))"
    by (rule new_events_append)
  then show "\<exists>n. new_events w (snd (connectedCallback i w)) =
      map (Fired i Hm) (take n (registered i Hm w))" ..
next
  from forEach_trace_prefix [of i Hum "registered i Hum w" w] obtain n where
    "trace (snd (disconnectedCallback i w)) =
       trace w @ map (Fired i Hum) (take n (registered i Hum w))"
    unfolding disconnectedCallback_def fire_registered ..
  then have "new_events w (snd (disconnectedCallback i w)) =
      map (Fired i Hum) (take n (registered i Hum w))"
    by (rule new_events_append)
  then show "\<exists>n. new_events w (snd (disconnectedCallback i w)) =
      map (Fired i Hum) (take n (registered i Hum w))" ..
qed

theorem registration_appends_in_order_witness:
  "currentInstance (mounted_page\<lparr>currentInstance := Some 0\<rparr>) = Some 0 \<and>
   registered 0 Hm (snd (onMounted (0, [Get ''z'']) (mounted_page\<lparr>currentInstance := Some 0\<rparr>))) =
     [(0, [Get ''a'']), (0, [Get ''b'']), (0, [Get ''z''])] \<and>
   only_regs (setup_code mounted_factory) \<and>
   registered 0 Hm mounted_page = [(0, [Get ''a'']), (0, [Get ''b''])] \<and>
   registered 0 Hum mounted_page = [(0, [Get ''c''])] \<and>
   fst (constructor (Some mounted_factory) 0 init) = Normal \<and>
   new_events init mounted_page = [Rendered 0] \<and>
   fst (connectedCallback 0 mounted_page) = Normal \<and>
   new_events mounted_page (snd (connectedCallback 0 mounted_page)) =
     [Fired 0 Hm (0, [Get ''a'']), Fired 0 Hm (0, [Get ''b''])] \<and>
   fst (disconnectedCallback 0 mounted_page) = Normal \<and>
   new_events mounted_page (snd (disconnectedCallback 0 mounted_page)) =
     [Fired 0 Hum (0, [Get ''c''])] \<and>
   isMounted (heap counter_page 0) \<and> currentInstance counter_page = None \<and>
   subs counter_page 0 ''count'' = [0] \<and>
   fst (attributeChangedCallback 0 ''count'' JNull (JStr ''1'') counter_page) = Normal \<and>
   new_events counter_page (snd (attributeChangedCallback 0 ''count'' JNull (JStr ''1'') counter_page)) =
     [Rendered 0, Fired 0 Hu (0, [Get ''d''])]"
proof -
  note f = mounted_page_facts
  note g = counter_page_facts
  note t = registration_appends_in_order [where w = init and i = 0 and f = mounted_factory
      and fac = "Some mounted_factory", folded mounted_page_def]
  note u = registration_appends_in_order [where w = mounted_page and i = 0]
  note v = registration_appends_in_order [where w = "mounted_page\<lparr>currentInstance := Some 0\<rparr>"
      and c = 0 and c' = 0 and name' = Hm and cb = "(0, [Get ''z''])"]
  note x = registration_appends_in_order [where w = counter_page and i = 0 and key = "''count''"
      and oldValue = JNull and newValue = "JStr ''1''"]
  have c0: "currentInstance (mounted_page\<lparr>currentInstance := Some 0\<rparr>) = Some 0" by simp
  have 1: "registered 0 Hm (snd (onMounted (0, [Get ''z''])
      (mounted_page\<lparr>currentInstance := Some 0\<rparr>))) =
     [(0, [Get ''a'']), (0, [Get ''b'']), (0, [Get ''z''])]"
    using v c0 f(9) by simp
  have 2: "registered 0 Hm mounted_page = [(0, [Get ''a'']), (0, [Get ''b''])]"
    using t [where name = Hm] f(1,2) by simp
  have 3: "registered 0 Hum mounted_page = [(0, [Get ''c''])]"
    using t [where name = Hum] f(1,3) by simp
  have 4: "new_events init mounted_page = [Rendered 0]"
    using t f(4,5,6) by simp
  have 5: "new_events mounted_page (snd (connectedCallback 0 mounted_page)) =
     [Fired 0 Hm (0, [Get ''a'']), Fired 0 Hm (0, [Get ''b''])]"
    using u f(7) 2 by simp
  have 6: "new_events mounted_page (snd (disconnectedCallback 0 mounted_page)) =
     [Fired 0 Hum (0, [Get ''c''])]"
    using u f(8) 3 by simp
  have 7: "new_events counter_page
      (snd (attributeChangedCallback 0 ''count'' JNull (JStr ''1'') counter_page)) =
     [Rendered 0, Fired 0 Hu (0, [Get ''d''])]"
    using x g(2,4,5,7) counter_page_change(1) by simp
  from c0 1 2 3 4 5 6 7 f(1,4,7,8) g(2,4,5) counter_page_change(1) show ?thesis by blast
qed

end
